theory Spec2Isabelle
  imports Complex_Main "HOL-Library.Sublist" "HOL-Library.AList"
begin

section \<open>JavaScript values as the bridge sees them\<close>

text \<open>
  The bridge (\<^verbatim>\<open>src/main.ts\<close>) reads relay messages with \<^verbatim>\<open>JSON.parse\<close> and never checks the
  types of their fields: the TypeScript interfaces are erased at run time. A field of an inbound
  message is therefore any JSON value, or \<^verbatim>\<open>undefined\<close> when the field is missing. A finite
  number is the rational it denotes (a double is one); the two infinities are values of their
  own. The bridge tests numbers for zero, copies them and adds token counts. NaN arises neither
  from \<^verbatim>\<open>JSON.parse\<close> nor from adding two finite numbers, and a negative zero is not told from
  zero: both are falsy.
\<close>

type_synonym number = rat

datatype jsval =
    JUndefined
  | JNull
  | JBool bool
  | JNum number
  | JInfinity
  | JNegInfinity
  | JStr string
  | JArr "jsval list"
  | JObj "(string \<times> jsval) list"

text \<open>ToBoolean: what \<^verbatim>\<open>!v\<close> and \<^verbatim>\<open>v || d\<close> test.\<close>

fun truthy :: "jsval \<Rightarrow> bool" where
  "truthy JUndefined = False"
| "truthy JNull = False"
| "truthy (JBool b) = b"
| "truthy (JNum n) = (n \<noteq> 0)"
| "truthy JInfinity = True"
| "truthy JNegInfinity = True"
| "truthy (JStr s) = (s \<noteq> [])"
| "truthy (JArr xs) = True"
| "truthy (JObj kvs) = True"

text \<open>\<^verbatim>\<open>a || b\<close> on values.\<close>

definition js_or :: "jsval \<Rightarrow> jsval \<Rightarrow> jsval" where
  "js_or a b = (if truthy a then a else b)"

text \<open>\<^verbatim>\<open>n || d\<close> on a numeric field of the backend reply; \<open>None\<close> is a missing field.\<close>

definition num_or :: "number option \<Rightarrow> number \<Rightarrow> number" where
  "num_or a d = (case a of None \<Rightarrow> d | Some n \<Rightarrow> if n \<noteq> 0 then n else d)"

section \<open>Addition of numbers\<close>

text \<open>
  \<^verbatim>\<open>a + b\<close> on two finite numbers is the addition of IEEE 754 doubles: the exact sum, rounded
  to the nearest double, a tie going to the even significand, and to an infinity when the
  rounded magnitude reaches \<open>2 ^ 1024\<close>. A double has a significand of 53 bits: a positive
  \<open>x\<close> with \<open>2 ^ e \<le> x < 2 ^ (e + 1)\<close> is rounded to a multiple of \<open>2 ^ (e - 52)\<close>, and
  below \<open>2 ^ - 1022\<close> to a multiple of \<open>2 ^ - 1074\<close>.
\<close>

datatype js_number = Finite number | PosInfinity | NegInfinity

text \<open>The length of a natural number in bits.\<close>

fun bit_length :: "nat \<Rightarrow> nat" where
  "bit_length n = (if n = 0 then 0 else Suc (bit_length (n div 2)))"

declare bit_length.simps [simp del]

definition pow2 :: "int \<Rightarrow> rat" where
  "pow2 k = (if 0 \<le> k then 2 ^ nat k else 1 / 2 ^ nat (- k))"

text \<open>The binary exponent of a positive number: the \<open>e\<close> with \<open>2 ^ e \<le> x < 2 ^ (e + 1)\<close>.\<close>

definition exponent :: "rat \<Rightarrow> int" where
  "exponent x =
     (if 1 \<le> x then int (bit_length (nat \<lfloor>x\<rfloor>)) - 1
      else - int (bit_length (nat (\<lceil>1 / x\<rceil> - 1))))"

definition round_half_even :: "rat \<Rightarrow> int" where
  "round_half_even x =
     (let f = \<lfloor>x\<rfloor>
      in if x - of_int f < 1 / 2 then f
         else if 1 / 2 < x - of_int f then f + 1
         else if even f then f else f + 1)"

text \<open>A positive number rounded to 53 significant bits.\<close>

definition round_magnitude :: "rat \<Rightarrow> rat" where
  "round_magnitude x =
     (let q = pow2 (max (exponent x) (- 1022) - 52)
      in of_int (round_half_even (x / q)) * q)"

definition to_double :: "rat \<Rightarrow> js_number" where
  "to_double x =
     (if x = 0 then Finite 0
      else if 0 < x
        then (if round_magnitude x < pow2 1024 then Finite (round_magnitude x) else PosInfinity)
        else (if round_magnitude (- x) < pow2 1024 then Finite (- round_magnitude (- x))
              else NegInfinity))"

definition js_add :: "number \<Rightarrow> number \<Rightarrow> js_number" where
  "js_add a b = to_double (a + b)"

definition number_value :: "js_number \<Rightarrow> jsval" where
  "number_value x =
     (case x of Finite r \<Rightarrow> JNum r | PosInfinity \<Rightarrow> JInfinity | NegInfinity \<Rightarrow> JNegInfinity)"

section \<open>Errors and property reads\<close>

text \<open>
  A thrown value: an \<^verbatim>\<open>Error\<close> with its name and message. \<^verbatim>\<open>String(error)\<close> is
  \<^verbatim>\<open>Error.prototype.toString\<close>.
\<close>

datatype js_error = JsError string string

fun String_error :: "js_error \<Rightarrow> string" where
  "String_error (JsError name msg) =
     (if name = [] then msg else if msg = [] then name else name @ '': '' @ msg)"

text \<open>
  Property read \<^verbatim>\<open>d.k\<close> for the names the bridge reads (\<^verbatim>\<open>type\<close>, \<^verbatim>\<open>id\<close>, \<^verbatim>\<open>prompt\<close>, \<^verbatim>\<open>model\<close>,
  \<^verbatim>\<open>temperature\<close>, \<^verbatim>\<open>topK\<close>, \<^verbatim>\<open>topP\<close>; none is a built-in property of a string, an array or a
  number). On \<^verbatim>\<open>null\<close> and \<^verbatim>\<open>undefined\<close> the read throws a TypeError; on any other value that is
  not an object it yields \<^verbatim>\<open>undefined\<close>. The list of an object holds its own properties, each
  key once.
\<close>

fun nullish :: "jsval \<Rightarrow> bool" where
  "nullish JUndefined = True"
| "nullish JNull = True"
| "nullish v = False"

fun js_lookup :: "jsval \<Rightarrow> string \<Rightarrow> jsval" where
  "js_lookup (JObj kvs) k = (case map_of kvs k of None \<Rightarrow> JUndefined | Some v \<Rightarrow> v)"
| "js_lookup v k = JUndefined"

definition js_get :: "jsval \<Rightarrow> string \<Rightarrow> js_error + jsval" where
  "js_get d k =
     (if nullish d then Inl (JsError ''TypeError'' (''Cannot read properties of null or undefined (reading '' @ k @ '')''))
      else Inr (js_lookup d k))"

text \<open>A field is present when the read succeeds with a value other than \<^verbatim>\<open>undefined\<close>.\<close>

definition has_field :: "jsval \<Rightarrow> string \<Rightarrow> bool" where
  "has_field d k = (case js_get d k of Inl e \<Rightarrow> False | Inr v \<Rightarrow> v \<noteq> JUndefined)"

section \<open>The built-in Map\<close>

text \<open>
  \<^verbatim>\<open>Map<K, V>\<close> keeps one entry per key in insertion order; \<^verbatim>\<open>set\<close> on a key already there
  replaces the value in place. Keys compare by value, as they do in JavaScript for strings,
  numbers and booleans.
\<close>

type_synonym ('k, 'v) js_map = "('k \<times> 'v) list"

definition Map_new :: "('k, 'v) js_map" where
  "Map_new = []"

fun Map_set :: "('k, 'v) js_map \<Rightarrow> 'k \<Rightarrow> 'v \<Rightarrow> ('k, 'v) js_map" where
  "Map_set [] k v = [(k, v)]"
| "Map_set ((k', v') # m) k v = (if k' = k then (k, v) # m else (k', v') # Map_set m k v)"

fun Map_get :: "('k, 'v) js_map \<Rightarrow> 'k \<Rightarrow> 'v option" where
  "Map_get [] k = None"
| "Map_get ((k', v') # m) k = (if k' = k then Some v' else Map_get m k)"

definition Map_size :: "('k, 'v) js_map \<Rightarrow> nat" where
  "Map_size m = length m"

definition Map_keys :: "('k, 'v) js_map \<Rightarrow> 'k list" where
  "Map_keys m = map fst m"

text \<open>A sequence of \<^verbatim>\<open>set\<close> calls, in order.\<close>

definition Map_puts :: "('k, 'v) js_map \<Rightarrow> ('k \<times> 'v) list \<Rightarrow> ('k, 'v) js_map" where
  "Map_puts m puts = foldl (\<lambda>m (k, v). Map_set m k v) m puts"

section \<open>Types of the bridge\<close>

record SemanticRequest =
  rq_id :: jsval
  rq_prompt :: jsval
  rq_model :: jsval
  rq_temperature :: jsval
  rq_topK :: jsval
  rq_topP :: jsval
  rq_timestamp :: int

record token_counts =
  tk_prompt :: number
  tk_completion :: number
  tk_total :: js_number

record SemanticResponse =
  rs_id :: jsval
  rs_prompt :: jsval
  rs_model :: jsval
  rs_response :: jsval
  rs_tokens :: token_counts
  rs_processingTime :: int
  rs_timestamp :: int

section \<open>OllamaClient\<close>

record OllamaClient =
  baseUrl :: string
  cl_model :: string
  requestTimeout :: nat

text \<open>The body of \<^verbatim>\<open>POST /api/generate\<close> and of \<^verbatim>\<open>POST /api/chat\<close>.\<close>

record generate_body =
  gb_model :: jsval
  gb_prompt :: jsval
  gb_temperature :: jsval
  gb_top_k :: jsval
  gb_top_p :: jsval
  gb_stream :: bool

record OllamaMessage =
  role :: string
  content :: string

record chat_body =
  cb_model :: jsval
  cb_messages :: "OllamaMessage list"
  cb_temperature :: jsval
  cb_stream :: bool

text \<open>
  The reply body \<^verbatim>\<open>response.data\<close> of the two endpoints, with the fields the client reads. A
  count is \<open>None\<close> when the backend left the field out, and the double that was read from the
  reply otherwise.
\<close>

record generate_data =
  gd_response :: jsval
  gd_prompt_eval_count :: "number option"
  gd_eval_count :: "number option"

record chat_data =
  cd_message_content :: jsval
  cd_prompt_eval_count :: "number option"
  cd_eval_count :: "number option"

text \<open>
  \<^verbatim>\<open>generate\<close>, up to its \<^verbatim>\<open>await\<close>: the log line calls \<^verbatim>\<open>request.prompt.substring(0, 50)\<close>,
  which throws a TypeError unless the prompt is a string; the \<^verbatim>\<open>catch\<close> rethrows it. Otherwise
  the request body is handed to \<^verbatim>\<open>axios.post\<close>.
\<close>

definition generate_request :: "OllamaClient \<Rightarrow> SemanticRequest \<Rightarrow> js_error + generate_body" where
  "generate_request c request =
     (case rq_prompt request of
        JStr p \<Rightarrow>
          Inr \<lparr> gb_model = js_or (rq_model request) (JStr (cl_model c)),
                gb_prompt = rq_prompt request,
                gb_temperature = js_or (rq_temperature request) (JNum (7 / 10)),
                gb_top_k = js_or (rq_topK request) (JNum 40),
                gb_top_p = js_or (rq_topP request) (JNum (9 / 10)),
                gb_stream = False \<rparr>
      | JUndefined \<Rightarrow> Inl (JsError ''TypeError'' ''Cannot read properties of undefined (reading substring)'')
      | JNull \<Rightarrow> Inl (JsError ''TypeError'' ''Cannot read properties of null (reading substring)'')
      | v \<Rightarrow> Inl (JsError ''TypeError'' ''request.prompt.substring is not a function''))"

text \<open>
  \<^verbatim>\<open>generate\<close>, after the backend replied: \<open>startTime\<close> was read before the call, \<open>now1\<close> and
  \<open>now2\<close> are the two readings of \<^verbatim>\<open>Date.now()\<close> that follow.
\<close>

definition generate_response ::
  "OllamaClient \<Rightarrow> SemanticRequest \<Rightarrow> int \<Rightarrow> generate_data \<Rightarrow> int \<Rightarrow> int \<Rightarrow> SemanticResponse" where
  "generate_response c request startTime d now1 now2 =
     \<lparr> rs_id = rq_id request,
       rs_prompt = rq_prompt request,
       rs_model = js_or (rq_model request) (JStr (cl_model c)),
       rs_response = gd_response d,
       rs_tokens =
         \<lparr> tk_prompt = num_or (gd_prompt_eval_count d) 0,
           tk_completion = num_or (gd_eval_count d) 0,
           tk_total = js_add (num_or (gd_prompt_eval_count d) 0) (num_or (gd_eval_count d) 0) \<rparr>,
       rs_processingTime = now1 - startTime,
       rs_timestamp = now2 \<rparr>"

text \<open>\<^verbatim>\<open>chat\<close>: the request body, and the response built from the reply.\<close>

definition chat_request :: "OllamaClient \<Rightarrow> OllamaMessage list \<Rightarrow> SemanticRequest \<Rightarrow> chat_body" where
  "chat_request c messages request =
     \<lparr> cb_model = js_or (rq_model request) (JStr (cl_model c)),
       cb_messages = messages,
       cb_temperature = js_or (rq_temperature request) (JNum (7 / 10)),
       cb_stream = False \<rparr>"

definition chat_response ::
  "OllamaClient \<Rightarrow> SemanticRequest \<Rightarrow> int \<Rightarrow> chat_data \<Rightarrow> int \<Rightarrow> int \<Rightarrow> SemanticResponse" where
  "chat_response c request startTime d now1 now2 =
     \<lparr> rs_id = rq_id request,
       rs_prompt = rq_prompt request,
       rs_model = js_or (rq_model request) (JStr (cl_model c)),
       rs_response = cd_message_content d,
       rs_tokens =
         \<lparr> tk_prompt = num_or (cd_prompt_eval_count d) 0,
           tk_completion = num_or (cd_eval_count d) 0,
           tk_total = js_add (num_or (cd_prompt_eval_count d) 0) (num_or (cd_eval_count d) 0) \<rparr>,
       rs_processingTime = now1 - startTime,
       rs_timestamp = now2 \<rparr>"

section \<open>The host: parser, clock, identifiers, promise rejections\<close>

text \<open>
  What the bridge takes from its runtime and its libraries: \<^verbatim>\<open>JSON.parse\<close> (\<open>Inl\<close> the
  SyntaxError it throws on a text that is not JSON), the successive readings of \<^verbatim>\<open>Date.now()\<close>, the successive results of
  \<^verbatim>\<open>uuidv4()\<close>, the client built by the constructor of the bridge from \<^verbatim>\<open>OLLAMA_URL\<close> and
  \<^verbatim>\<open>SEMANTIC_MODEL\<close>, and what the runtime does with a rejected promise nobody handles (Node ends
  the process when \<open>unhandledRejectionFatal\<close> holds, and only warns otherwise).
\<close>

record host =
  JSON_parse :: "string \<Rightarrow> js_error + jsval"
  Date_now :: "nat \<Rightarrow> int"
  uuidv4 :: "nat \<Rightarrow> string"
  ollama :: OllamaClient
  unhandledRejectionFatal :: bool

section \<open>The state of the process\<close>

datatype promise_state = Pending | Fulfilled | Rejected

text \<open>
  A socket made by \<^verbatim>\<open>new WebSocket(url)\<close> in one call of \<^verbatim>\<open>connectToFederation\<close>, with the
  promise that call returned. \<open>readyState\<close> is 0 CONNECTING, 1 OPEN, 2 CLOSING, 3 CLOSED.
\<close>

record websocket =
  readyState :: nat
  connectPromise :: promise_state

text \<open>A call of \<^verbatim>\<open>axios.post\<close> made by \<^verbatim>\<open>generate\<close>, and whether its promise has settled.\<close>

record backend_call =
  bc_body :: generate_body
  bc_request :: SemanticRequest
  bc_startTime :: int
  bc_settled :: bool

text \<open>
  \<open>Booting\<close>: \<^verbatim>\<open>main\<close> awaits \<^verbatim>\<open>bridge.initialize()\<close>, which awaits the promise of the first
  call of \<^verbatim>\<open>connectToFederation\<close>. \<open>Running\<close>: that promise was fulfilled. \<open>Exited c\<close>:
  the process has ended with status \<open>c\<close>.
\<close>

datatype phase = Booting | Running | Exited nat

text \<open>
  The three fields of \<^verbatim>\<open>SemanticBridge\<close> (the connection is the index of a socket, \<open>None\<close> for
  \<^verbatim>\<open>null\<close>), then what lives in the runtime: the sockets created so far, the texts handed to
  \<^verbatim>\<open>send\<close> (with the socket, as the object given to \<^verbatim>\<open>JSON.stringify\<close>), the backend calls, the
  delays of the pending \<^verbatim>\<open>setTimeout\<close> callbacks, and how often the clock and the identifier
  generator were read.
\<close>

record process =
  federationConnection :: "nat option"
  messageCache :: "(jsval, SemanticResponse) js_map"
  processingQueue :: "SemanticRequest list"
  sockets :: "websocket list"
  outbound :: "(nat \<times> jsval) list"
  calls :: "backend_call list"
  timers :: "nat list"
  phase :: phase
  clockReads :: nat
  uuidsDrawn :: nat

definition read_clock :: "host \<Rightarrow> process \<Rightarrow> int \<times> process" where
  "read_clock h s = (Date_now h (clockReads s), s\<lparr>clockReads := Suc (clockReads s)\<rparr>)"

definition draw_uuid :: "host \<Rightarrow> process \<Rightarrow> string \<times> process" where
  "draw_uuid h s = (uuidv4 h (uuidsDrawn s), s\<lparr>uuidsDrawn := Suc (uuidsDrawn s)\<rparr>)"

text \<open>\<^verbatim>\<open>this.federationConnection?.readyState === 1\<close>\<close>

definition link_open :: "process \<Rightarrow> bool" where
  "link_open s =
     (case federationConnection s of
        None \<Rightarrow> False
      | Some k \<Rightarrow> k < length (sockets s) \<and> readyState (sockets s ! k) = 1)"

text \<open>\<^verbatim>\<open>this.federationConnection.send(JSON.stringify(msg))\<close>, under the test above.\<close>

definition ws_send :: "jsval \<Rightarrow> process \<Rightarrow> process" where
  "ws_send msg s =
     (case federationConnection s of
        None \<Rightarrow> s
      | Some k \<Rightarrow> s\<lparr>outbound := outbound s @ [(k, msg)]\<rparr>)"

section \<open>SemanticBridge\<close>

text \<open>The object \<^verbatim>\<open>{type: 'semantic_response', ...response}\<close>.\<close>

definition response_message :: "SemanticResponse \<Rightarrow> jsval" where
  "response_message r =
     JObj [(''type'', JStr ''semantic_response''),
           (''id'', rs_id r),
           (''prompt'', rs_prompt r),
           (''model'', rs_model r),
           (''response'', rs_response r),
           (''tokens'', JObj [(''prompt'', JNum (tk_prompt (rs_tokens r))),
                              (''completion'', JNum (tk_completion (rs_tokens r))),
                              (''total'', number_value (tk_total (rs_tokens r)))]),
           (''processingTime'', JNum (of_int (rs_processingTime r))),
           (''timestamp'', JNum (of_int (rs_timestamp r)))]"

text \<open>The object \<^verbatim>\<open>{type: 'semantic_error', id, error: String(error), timestamp: Date.now()}\<close>.\<close>

definition error_message :: "SemanticRequest \<Rightarrow> js_error \<Rightarrow> int \<Rightarrow> jsval" where
  "error_message request err now =
     JObj [(''type'', JStr ''semantic_error''),
           (''id'', rq_id request),
           (''error'', JStr (String_error err)),
           (''timestamp'', JNum (of_int now))]"

text \<open>\<^verbatim>\<open>processRequest\<close>, the \<^verbatim>\<open>try\<close> block after \<^verbatim>\<open>generate\<close> returned a response.\<close>

definition processRequest_then :: "SemanticRequest \<Rightarrow> SemanticResponse \<Rightarrow> process \<Rightarrow> process" where
  "processRequest_then request response s =
     (let s1 = s\<lparr>messageCache := Map_set (messageCache s) (rq_id request) response\<rparr>
      in if link_open s1 then ws_send (response_message response) s1 else s1)"

text \<open>\<^verbatim>\<open>processRequest\<close>, the \<^verbatim>\<open>catch\<close> block.\<close>

definition processRequest_catch :: "host \<Rightarrow> SemanticRequest \<Rightarrow> js_error \<Rightarrow> process \<Rightarrow> process" where
  "processRequest_catch h request err s =
     (if link_open s
      then (let (now, s1) = read_clock h s in ws_send (error_message request err now) s1)
      else s)"

text \<open>
  \<^verbatim>\<open>processRequest\<close>, up to the \<^verbatim>\<open>await\<close> inside \<^verbatim>\<open>generate\<close>: the start time is read, and
  either \<^verbatim>\<open>generate\<close> throws at once or the backend call is made and left pending.
\<close>

definition processRequest :: "host \<Rightarrow> SemanticRequest \<Rightarrow> process \<Rightarrow> process" where
  "processRequest h request s =
     (let (startTime, s1) = read_clock h s
      in case generate_request (ollama h) request of
           Inl err \<Rightarrow> processRequest_catch h request err s1
         | Inr body \<Rightarrow>
             s1\<lparr>calls := calls s1 @
                   [\<lparr> bc_body = body, bc_request = request,
                      bc_startTime = startTime, bc_settled = False \<rparr>]\<rparr>)"

text \<open>The pending call \<open>i\<close> is answered: \<^verbatim>\<open>generate\<close> builds the response and returns it.\<close>

definition backend_resolved :: "host \<Rightarrow> nat \<Rightarrow> generate_data \<Rightarrow> process \<Rightarrow> process" where
  "backend_resolved h i d s =
     (if i < length (calls s) \<and> \<not> bc_settled (calls s ! i)
      then (let c = calls s ! i;
                s1 = s\<lparr>calls := (calls s)[i := c\<lparr>bc_settled := True\<rparr>]\<rparr>;
                (now1, s2) = read_clock h s1;
                (now2, s3) = read_clock h s2
            in processRequest_then (bc_request c)
                 (generate_response (ollama h) (bc_request c) (bc_startTime c) d now1 now2) s3)
      else s)"

text \<open>The pending call \<open>i\<close> fails: \<^verbatim>\<open>generate\<close> logs and rethrows.\<close>

definition backend_rejected :: "host \<Rightarrow> nat \<Rightarrow> js_error \<Rightarrow> process \<Rightarrow> process" where
  "backend_rejected h i err s =
     (if i < length (calls s) \<and> \<not> bc_settled (calls s ! i)
      then (let c = calls s ! i;
                s1 = s\<lparr>calls := (calls s)[i := c\<lparr>bc_settled := True\<rparr>]\<rparr>
            in processRequest_catch h (bc_request c) err s1)
      else s)"

text \<open>
  \<^verbatim>\<open>handleFederationMessage\<close>, the \<^verbatim>\<open>try\<close> block. \<^verbatim>\<open>JSON.parse\<close> may throw, and so does
  \<^verbatim>\<open>data.type\<close> on \<^verbatim>\<open>null\<close>; both happen before the bridge is touched. Past the test of
  \<^verbatim>\<open>data.type\<close> the value is not \<^verbatim>\<open>null\<close>, so the other reads cannot throw, and
  \<^verbatim>\<open>processRequest\<close> catches what \<^verbatim>\<open>generate\<close> throws.
\<close>

definition handleFederationMessage_try :: "host \<Rightarrow> string \<Rightarrow> process \<Rightarrow> js_error + process" where
  "handleFederationMessage_try h message s =
     (case JSON_parse h message of
        Inl err \<Rightarrow> Inl err
      | Inr d \<Rightarrow>
         (case js_get d ''type'' of
            Inl err \<Rightarrow> Inl err
          | Inr ty \<Rightarrow>
              if \<not> truthy ty then Inr s
              else if ty = JStr ''semantic_request'' then
                (let (ident, s1) =
                       (if truthy (js_lookup d ''id'') then (js_lookup d ''id'', s)
                        else (let (u, s') = draw_uuid h s in (JStr u, s')));
                     (now, s2) = read_clock h s1;
                     request = \<lparr> rq_id = ident,
                                 rq_prompt = js_lookup d ''prompt'',
                                 rq_model = js_lookup d ''model'',
                                 rq_temperature = js_lookup d ''temperature'',
                                 rq_topK = js_lookup d ''topK'',
                                 rq_topP = js_lookup d ''topP'',
                                 rq_timestamp = now \<rparr>;
                     s3 = s2\<lparr>processingQueue := processingQueue s2 @ [request]\<rparr>
                 in Inr (processRequest h request s3))
              else Inr s))"

text \<open>
  \<^verbatim>\<open>handleFederationMessage\<close>: the \<^verbatim>\<open>catch\<close> logs the error and returns, so the handler itself
  never throws. The error was thrown before any assignment, so the state is the one at entry.
\<close>

definition handleFederationMessage :: "host \<Rightarrow> string \<Rightarrow> process \<Rightarrow> process" where
  "handleFederationMessage h message s =
     (case handleFederationMessage_try h message s of
        Inl err \<Rightarrow> s
      | Inr s' \<Rightarrow> s')"

definition getResponse :: "process \<Rightarrow> jsval \<Rightarrow> SemanticResponse option" where
  "getResponse s ident = Map_get (messageCache s) ident"

record stats =
  queueLength :: nat
  cacheSize :: nat
  cachedResponses :: "jsval list"

definition getStats :: "process \<Rightarrow> stats" where
  "getStats s =
     \<lparr> queueLength = length (processingQueue s),
       cacheSize = Map_size (messageCache s),
       cachedResponses = Map_keys (messageCache s) \<rparr>"

section \<open>The relay link\<close>

text \<open>
  \<^verbatim>\<open>connectToFederation\<close>: a new socket in state CONNECTING becomes the connection of the
  bridge, and its four handlers are registered. The URL is built from constants, and the
  constructor is taken not to throw on it. \<open>reconnectDelay\<close> is the constant passed to
  \<^verbatim>\<open>setTimeout\<close> in the \<^verbatim>\<open>close\<close> handler.
\<close>

definition reconnectDelay :: nat where
  "reconnectDelay = 5000"

definition connectToFederation :: "process \<Rightarrow> process" where
  "connectToFederation s =
     s\<lparr>sockets := sockets s @ [\<lparr> readyState = 0, connectPromise = Pending \<rparr>],
       federationConnection := Some (length (sockets s))\<rparr>"

definition set_promise :: "nat \<Rightarrow> promise_state \<Rightarrow> process \<Rightarrow> process" where
  "set_promise k p s = s\<lparr>sockets := (sockets s)[k := (sockets s ! k)\<lparr>connectPromise := p\<rparr>]\<rparr>"

definition set_readyState :: "nat \<Rightarrow> nat \<Rightarrow> process \<Rightarrow> process" where
  "set_readyState k r s = s\<lparr>sockets := (sockets s)[k := (sockets s ! k)\<lparr>readyState := r\<rparr>]\<rparr>"

text \<open>
  \<^verbatim>\<open>resolve()\<close> in the \<^verbatim>\<open>open\<close> handler of socket \<open>k\<close>. A settled promise ignores it. The first
  promise is the one \<^verbatim>\<open>initialize\<close> awaits: once it is fulfilled \<^verbatim>\<open>main\<close> goes on.
\<close>

definition resolve_connect :: "nat \<Rightarrow> process \<Rightarrow> process" where
  "resolve_connect k s =
     (if connectPromise (sockets s ! k) \<noteq> Pending then s
      else (let s1 = set_promise k Fulfilled s
            in if k = 0 then s1\<lparr>phase := Running\<rparr> else s1))"

text \<open>
  \<^verbatim>\<open>reject(error)\<close> in the \<^verbatim>\<open>error\<close> handler of socket \<open>k\<close>. A settled promise ignores it. When
  \<^verbatim>\<open>initialize\<close> awaits the promise, the \<^verbatim>\<open>catch\<close> of \<^verbatim>\<open>main\<close> calls \<^verbatim>\<open>process.exit(1)\<close>. The
  promise of a later call, made from the timer, has no handler: the host decides.
\<close>

definition reject_connect :: "host \<Rightarrow> nat \<Rightarrow> process \<Rightarrow> process" where
  "reject_connect h k s =
     (if connectPromise (sockets s ! k) \<noteq> Pending then s
      else (let s1 = set_promise k Rejected s
            in if k = 0 then s1\<lparr>phase := Exited 1\<rparr>
               else if unhandledRejectionFatal h then s1\<lparr>phase := Exited 1\<rparr>
               else s1))"

text \<open>The \<^verbatim>\<open>close\<close> handler: \<^verbatim>\<open>setTimeout(() => this.connectToFederation(), 5000)\<close>.\<close>

definition on_close :: "process \<Rightarrow> process" where
  "on_close s = s\<lparr>timers := timers s @ [reconnectDelay]\<rparr>"

text \<open>The pending timer \<open>i\<close> fires: it is removed and its callback runs.\<close>

definition timer_fired :: "nat \<Rightarrow> process \<Rightarrow> process" where
  "timer_fired i s =
     (if i < length (timers s)
      then connectToFederation (s\<lparr>timers := take i (timers s) @ drop (Suc i) (timers s)\<rparr>)
      else s)"

section \<open>The event loop\<close>

text \<open>
  What the runtime delivers to the process, one callback at a time: the four events of a socket
  (the library has set \<open>readyState\<close> to OPEN before \<^verbatim>\<open>open\<close> and to CLOSED before \<^verbatim>\<open>close\<close>),
  a timer firing, the settling of a backend call, and the statistics interval of \<^verbatim>\<open>main\<close>,
  which only reads. The continuations that follow an \<^verbatim>\<open>await\<close> run before the next event, so
  each event is one step.
\<close>

datatype event =
    WsOpen nat
  | WsMessage nat string
  | WsError nat js_error
  | WsClose nat
  | TimerFired nat
  | BackendResolved nat generate_data
  | BackendRejected nat js_error
  | StatsInterval

fun handle :: "host \<Rightarrow> process \<Rightarrow> event \<Rightarrow> process" where
  "handle h s (WsOpen k) =
     (if k < length (sockets s) then resolve_connect k (set_readyState k 1 s) else s)"
| "handle h s (WsMessage k message) =
     (if k < length (sockets s) then handleFederationMessage h message s else s)"
| "handle h s (WsError k err) =
     (if k < length (sockets s) then reject_connect h k s else s)"
| "handle h s (WsClose k) =
     (if k < length (sockets s) then on_close (set_readyState k 3 s) else s)"
| "handle h s (TimerFired i) = timer_fired i s"
| "handle h s (BackendResolved i d) = backend_resolved h i d s"
| "handle h s (BackendRejected i err) = backend_rejected h i err s"
| "handle h s StatsInterval = s"

text \<open>A process that has exited runs nothing.\<close>

definition alive :: "process \<Rightarrow> bool" where
  "alive s = (case phase s of Exited c \<Rightarrow> False | _ \<Rightarrow> True)"

definition step :: "host \<Rightarrow> process \<Rightarrow> event \<Rightarrow> process" where
  "step h s e = (if alive s then handle h s e else s)"

definition run :: "host \<Rightarrow> process \<Rightarrow> event list \<Rightarrow> process" where
  "run h s es = foldl (step h) s es"

text \<open>
  \<^verbatim>\<open>main\<close>: a new bridge (no connection, empty cache, empty queue), whose \<^verbatim>\<open>initialize\<close> probes
  the backend, which only logs, and then calls \<^verbatim>\<open>connectToFederation\<close> and awaits it.
\<close>

definition new_SemanticBridge :: process where
  "new_SemanticBridge =
     \<lparr> federationConnection = None, messageCache = Map_new, processingQueue = [],
       sockets = [], outbound = [], calls = [], timers = [], phase = Booting,
       clockReads = 0, uuidsDrawn = 0 \<rparr>"

definition main :: process where
  "main = connectToFederation new_SemanticBridge"

text \<open>The number of connection attempts made so far: one socket per attempt.\<close>

definition attempts :: "process \<Rightarrow> nat" where
  "attempts s = length (sockets s)"

text \<open>
  One failed connection attempt on socket \<open>k\<close> as the library reports it: \<^verbatim>\<open>error\<close>, then
  \<^verbatim>\<open>close\<close>; and the timer that the \<^verbatim>\<open>close\<close> handler has set, firing.
\<close>

definition failure :: "nat \<Rightarrow> js_error \<Rightarrow> event list" where
  "failure k err = [WsError k err, WsClose k]"

text \<open>
  \<open>n\<close> failures in a row, starting with the attempt on socket \<open>k\<close>: each is followed by the
  firing of the (only) pending timer, which makes the attempt on the next socket.
\<close>

fun failures :: "nat \<Rightarrow> nat \<Rightarrow> js_error \<Rightarrow> event list" where
  "failures 0 k err = []"
| "failures (Suc n) k err = failure k err @ [TimerFired 0] @ failures n (Suc k) err"

section \<open>Kinds of events\<close>



section \<open>A concrete host and concrete inputs\<close>

text \<open>
  A host to run the bridge on: the parser knows five relay texts and rejects every other one,
  the clock advances by ten milliseconds per reading, the client is the one built from the
  default configuration, and unhandled rejections end the process, as in the Node 20 of the
  Dockerfile.
\<close>

definition example_parse :: "string \<Rightarrow> js_error + jsval" where
  \<open>example_parse t =
     (case map_of
        [(''{"type":"semantic_request","id":"msg-1","prompt":"2+2?"}'',
            JObj [(''type'', JStr ''semantic_request''), (''id'', JStr ''msg-1''),
                  (''prompt'', JStr ''2+2?'')]),
         (''{"type":"semantic_request","id":"msg-2","prompt":"2+2?"}'',
            JObj [(''type'', JStr ''semantic_request''), (''id'', JStr ''msg-2''),
                  (''prompt'', JStr ''2+2?'')]),
         (''{"type":"semantic_request","id":"","prompt":"2+2?"}'',
            JObj [(''type'', JStr ''semantic_request''), (''id'', JStr []),
                  (''prompt'', JStr ''2+2?'')]),
         (''{"type":"semantic_request","id":"msg-4","prompt":"2+2?","temperature":0}'',
            JObj [(''type'', JStr ''semantic_request''), (''id'', JStr ''msg-4''),
                  (''prompt'', JStr ''2+2?''), (''temperature'', JNum 0)]),
         (''{"id":"msg-5","prompt":"2+2?"}'',
            JObj [(''id'', JStr ''msg-5''), (''prompt'', JStr ''2+2?'')])] t of
        Some d \<Rightarrow> Inr d
      | None \<Rightarrow> Inl (JsError ''SyntaxError'' ''Unexpected token''))\<close>

definition example_host :: host where
  "example_host =
     \<lparr> JSON_parse = example_parse,
       Date_now = (\<lambda>n. 1700000000000 + 10 * int n),
       uuidv4 = (\<lambda>n. ''uuid-'' @ replicate n (CHR ''x'')),
       ollama = \<lparr> baseUrl = ''http://localhost:11434'', cl_model = ''mistral'',
                  requestTimeout = 60000 \<rparr>,
       unhandledRejectionFatal = True \<rparr>"

definition example_response :: SemanticResponse where
  "example_response =
     \<lparr> rs_id = JStr ''msg-1'', rs_prompt = JStr ''2+2?'', rs_model = JStr ''mistral'',
       rs_response = JStr ''4'',
       rs_tokens = \<lparr> tk_prompt = 3, tk_completion = 1, tk_total = Finite 4 \<rparr>,
       rs_processingTime = 10, rs_timestamp = 1700000000030 \<rparr>"

definition example_data :: generate_data where
  "example_data = \<lparr> gd_response = JStr ''4'', gd_prompt_eval_count = Some 3, gd_eval_count = Some 1 \<rparr>"

text \<open>
  A reply of the chat endpoint without a prompt count, and a reply whose counts are the
  integers \<open>2 ^ 53\<close> and 1, both of them doubles.
\<close>

definition example_chat_data :: chat_data where
  "example_chat_data =
     \<lparr> cd_message_content = JStr ''4'', cd_prompt_eval_count = None, cd_eval_count = Some 1 \<rparr>"

definition example_large_data :: generate_data where
  "example_large_data =
     \<lparr> gd_response = JStr ''4'', gd_prompt_eval_count = Some 9007199254740992,
       gd_eval_count = Some 1 \<rparr>"

definition example_request :: SemanticRequest where
  "example_request =
     \<lparr> rq_id = JStr ''msg-1'', rq_prompt = JStr ''2+2?'', rq_model = JUndefined,
       rq_temperature = JUndefined, rq_topK = JUndefined, rq_topP = JUndefined,
       rq_timestamp = 1700000000000 \<rparr>"

definition example_timeout :: js_error where
  "example_timeout = JsError ''AxiosError'' ''timeout of 60000ms exceeded''"


definition example_offline :: process where
  \<open>example_offline =
     run example_host main
       [WsOpen 0, WsMessage 0 ''{"type":"semantic_request","id":"msg-2","prompt":"2+2?"}'',
        WsClose 0]\<close>

text \<open>
  The same host, but one that only warns about an unhandled rejection; and the error of a
  refused connection.
\<close>

definition lenient_host :: host where
  "lenient_host = example_host\<lparr>unhandledRejectionFatal := False\<rparr>"

definition example_refused :: js_error where
  "example_refused = JsError ''Error'' ''connect ECONNREFUSED 127.0.0.1:8810''"

section \<open>The response cache\<close>

lemma Map_get_map_of: "Map_get m k = map_of m k"
  by (induction m) auto

lemma Map_set_update: "Map_set m k v = AList.update k v m"
  by (induction m) auto

lemma Map_get_set_same: "Map_get (Map_set m k v) k = Some v"
  by (simp add: Map_get_map_of Map_set_update update_conv')

lemma Map_get_set_other: "k' \<noteq> k \<Longrightarrow> Map_get (Map_set m k v) k' = Map_get m k'"
  by (simp add: Map_get_map_of Map_set_update update_conv')

lemma Map_get_None_iff: "Map_get m k = None \<longleftrightarrow> k \<notin> set (Map_keys m)"
  by (simp add: Map_get_map_of Map_keys_def map_of_eq_None_iff)

lemma Map_keys_set: "set (Map_keys (Map_set m k v)) = insert k (set (Map_keys m))"
  by (simp add: Map_set_update Map_keys_def dom_update)

text \<open>At most one entry per key: \<^verbatim>\<open>set\<close> never duplicates a key.\<close>

lemma Map_set_distinct: "distinct (Map_keys m) \<Longrightarrow> distinct (Map_keys (Map_set m k v))"
  by (simp add: Map_set_update Map_keys_def distinct_update)

lemma Map_puts_absent:
  "k \<notin> fst ` set puts \<Longrightarrow> Map_get (Map_puts m puts) k = Map_get m k"
proof (induction puts arbitrary: m)
  case Nil
  then show ?case by (simp add: Map_puts_def)
next
  case (Cons p puts)
  obtain k' v' where p: "p = (k', v')" by (cases p)
  from Cons.prems have ne: "k' \<noteq> k" and rest: "k \<notin> fst ` set puts"
    by (auto simp: p)
  have "Map_get (Map_puts (Map_set m k' v') puts) k = Map_get (Map_set m k' v') k"
    by (rule Cons.IH [OF rest])
  also have "\<dots> = Map_get m k"
    using ne by (simp add: Map_get_set_other)
  finally show ?case by (simp add: Map_puts_def p)
qed

text \<open>
  C1. The cache is the field \<^verbatim>\<open>messageCache\<close>, written by \<^verbatim>\<open>messageCache.set(id, r)\<close> and read
  by \<^verbatim>\<open>getResponse(id)\<close>. After a put of \<open>r\<close> under an identifier, the read of that identifier
  returns exactly \<open>r\<close>; after a second put of \<open>r2\<close> under the same identifier it returns \<open>r2\<close>;
  and in a cache built from the empty one by any sequence of puts, an identifier that none of
  them inserted is absent. This holds for every identifier and all responses.
\<close>

theorem cache_put_get_last_write_wins:
  "getResponse (s\<lparr>messageCache := Map_set (messageCache s) ident r\<rparr>) ident = Some r
   \<and> getResponse (s\<lparr>messageCache := Map_set (Map_set (messageCache s) ident r) ident r2\<rparr>) ident
       = Some r2
   \<and> (ident \<notin> fst ` set puts \<longrightarrow>
        getResponse (s\<lparr>messageCache := Map_puts Map_new puts\<rparr>) ident = None)"
  by (simp add: getResponse_def Map_get_set_same Map_puts_absent Map_new_def)

theorem cache_put_get_last_write_wins_witness:
  "getResponse (new_SemanticBridge\<lparr>messageCache :=
       Map_set (messageCache new_SemanticBridge) (JStr ''msg-3'') example_response\<rparr>) (JStr ''msg-3'')
     = Some example_response
   \<and> JStr ''msg-1'' \<notin> fst ` set [(JStr ''msg-3'', example_response)]
   \<and> getResponse (new_SemanticBridge\<lparr>messageCache :=
         Map_puts Map_new [(JStr ''msg-3'', example_response)]\<rparr>) (JStr ''msg-1'') = None"
  using cache_put_get_last_write_wins
    [of new_SemanticBridge "JStr ''msg-3''" example_response example_response
        "[(JStr ''msg-3'', example_response)]"]
    cache_put_get_last_write_wins
    [of new_SemanticBridge "JStr ''msg-1''" example_response example_response
        "[(JStr ''msg-3'', example_response)]"]
  by simp

section \<open>Token accounting\<close>

lemma bit_length_pos: "0 < n \<Longrightarrow> 0 < bit_length n"
  by (subst bit_length.simps) simp

lemma bit_length_lower: "0 < n \<Longrightarrow> 2 ^ (bit_length n - 1) \<le> n"
proof (induction n rule: bit_length.induct)
  case (1 n)
  then have n: "n \<noteq> 0" by simp
  have b: "bit_length n = Suc (bit_length (n div 2))"
    using n by (subst bit_length.simps) simp
  show ?case
  proof (cases "n div 2 = 0")
    case True
    then have "bit_length (n div 2) = 0" by (simp add: bit_length.simps)
    with b "1.prems" show ?thesis by simp
  next
    case False
    with "1.IH" [OF n] have ih: "2 ^ (bit_length (n div 2) - 1) \<le> n div 2" by simp
    from False have "0 < bit_length (n div 2)" by (simp add: bit_length_pos)
    then have "(2::nat) ^ bit_length (n div 2) = 2 * 2 ^ (bit_length (n div 2) - 1)"
      by (cases "bit_length (n div 2)") simp_all
    with ih have "2 ^ bit_length (n div 2) \<le> n" by linarith
    with b show ?thesis by simp
  qed
qed

lemma round_half_even_of_int: "round_half_even (of_int m) = m"
  by (simp add: round_half_even_def)

lemma pow2_below: "k \<le> 52 \<Longrightarrow> pow2 (int k - 52) = 1 / 2 ^ (52 - k)"
  by (cases "k = 52") (simp_all add: pow2_def nat_diff_distrib')

text \<open>Up to \<open>2 ^ 53\<close> every natural number is a double: rounding leaves it as it is.\<close>

lemma round_magnitude_small_nat:
  assumes "0 < n" "n \<le> 2 ^ 53"
  shows "round_magnitude (of_nat n) = of_nat n"
proof -
  let ?k = "bit_length n - 1"
  have x1: "(1::rat) \<le> of_nat n"
    using assms(1) by simp
  have bp: "0 < bit_length n"
    using assms(1) by (rule bit_length_pos)
  have e: "exponent (of_nat n) = int ?k"
    using x1 bp by (simp add: exponent_def)
  have "(2::nat) ^ ?k \<le> 2 ^ 53"
    using bit_length_lower [OF assms(1)] assms(2) by (rule order_trans)
  then have k53: "?k \<le> 53"
    by (rule power_le_imp_le_exp [rotated]) simp
  show ?thesis
  proof (cases "?k \<le> 52")
    case True
    have q: "pow2 (max (exponent (of_nat n)) (- 1022) - 52) = 1 / 2 ^ (52 - ?k)"
      using pow2_below [OF True] by (simp add: e)
    have "(of_nat n :: rat) / (1 / 2 ^ (52 - ?k)) = of_int (int n * 2 ^ (52 - ?k))"
      by simp
    then have "round_half_even (of_nat n / (1 / 2 ^ (52 - ?k))) = int n * 2 ^ (52 - ?k)"
      by (simp only: round_half_even_of_int)
    then show ?thesis
      by (simp add: round_magnitude_def q)
  next
    case False
    with k53 have k: "?k = 53" by simp
    with bit_length_lower [OF assms(1)] assms(2) have n: "n = 2 ^ 53" by simp
    from e k have "exponent (of_nat n) = 53" by simp
    then have q: "pow2 (max (exponent (of_nat n)) (- 1022) - 52) = 2"
      by (simp add: pow2_def)
    have "(of_nat n :: rat) / 2 = of_int (2 ^ 52)"
      by (simp add: n)
    then have r: "round_half_even (of_nat n / 2) = 2 ^ 52"
      by (simp only: round_half_even_of_int)
    have "round_magnitude (of_nat n) = of_int (round_half_even (of_nat n / 2)) * 2"
      by (simp only: round_magnitude_def q Let_def)
    also have "\<dots> = of_int (2 ^ 52) * 2"
      by (simp only: r)
    also have "\<dots> = of_nat n"
      by (simp add: n)
    finally show ?thesis .
  qed
qed

lemma to_double_small_nat:
  assumes "n \<le> 2 ^ 53"
  shows "to_double (of_nat n) = Finite (of_nat n)"
proof (cases "n = 0")
  case True
  then show ?thesis by (simp add: to_double_def)
next
  case False
  then have pos: "0 < n" by simp
  have "(of_nat n :: rat) \<le> of_nat (2 ^ 53)"
    using assms by (simp only: of_nat_le_iff)
  also have "\<dots> < 2 ^ 1024"
    by simp
  finally have "(of_nat n :: rat) < pow2 1024"
    by (simp add: pow2_def)
  with pos round_magnitude_small_nat [OF pos assms] show ?thesis
    by (simp add: to_double_def)
qed

lemma js_add_exact:
  "a + b \<le> 2 ^ 53 \<Longrightarrow> js_add (of_nat a) (of_nat b) = Finite (of_nat a + of_nat b)"
  using to_double_small_nat [of "a + b"] by (simp add: js_add_def)

lemma floor_numeral_quotient:
  "\<lfloor>numeral a / numeral b :: rat\<rfloor> = numeral a div numeral b"
  using floor_divide_of_int_eq [of "numeral a" "numeral b", where ?'a = rat] by simp

lemmas double_defs = js_add_def to_double_def round_magnitude_def round_half_even_def
  exponent_def pow2_def bit_length.simps floor_numeral_quotient Let_def

text \<open>
  In every response of \<^verbatim>\<open>generate\<close> and of \<^verbatim>\<open>chat\<close>, \<^verbatim>\<open>tokens.prompt\<close> and
  \<^verbatim>\<open>tokens.completion\<close> are the counts of the backend reply, a missing count being 0, and
  \<^verbatim>\<open>tokens.total\<close> is what \<^verbatim>\<open>+\<close> makes of the two.
\<close>

lemma tokens_are_backend_counts:
  "tk_prompt (rs_tokens (generate_response c request t0 d now1 now2)) =
       (case gd_prompt_eval_count d of None \<Rightarrow> 0 | Some n \<Rightarrow> n)
   \<and> tk_completion (rs_tokens (generate_response c request t0 d now1 now2)) =
       (case gd_eval_count d of None \<Rightarrow> 0 | Some n \<Rightarrow> n)
   \<and> tk_total (rs_tokens (generate_response c request t0 d now1 now2)) =
       js_add (tk_prompt (rs_tokens (generate_response c request t0 d now1 now2)))
              (tk_completion (rs_tokens (generate_response c request t0 d now1 now2)))
   \<and> tk_prompt (rs_tokens (chat_response c request t0 d' now1 now2)) =
       (case cd_prompt_eval_count d' of None \<Rightarrow> 0 | Some n \<Rightarrow> n)
   \<and> tk_completion (rs_tokens (chat_response c request t0 d' now1 now2)) =
       (case cd_eval_count d' of None \<Rightarrow> 0 | Some n \<Rightarrow> n)
   \<and> tk_total (rs_tokens (chat_response c request t0 d' now1 now2)) =
       js_add (tk_prompt (rs_tokens (chat_response c request t0 d' now1 now2)))
              (tk_completion (rs_tokens (chat_response c request t0 d' now1 now2)))"
  by (simp add: generate_response_def chat_response_def num_or_def split: option.splits)

text \<open>
  C2, as the code has it. The bridge adds the two counts as JavaScript adds numbers. When the
  counts of the backend reply (a missing one being 0) are non-negative integers whose sum is at
  most \<open>2 ^ 53\<close>, the addition is exact: in the response of \<^verbatim>\<open>generate\<close> and in that of
  \<^verbatim>\<open>chat\<close>, \<^verbatim>\<open>tokens.prompt\<close> and \<^verbatim>\<open>tokens.completion\<close> are these counts and
  \<^verbatim>\<open>tokens.total\<close> is their sum.
\<close>

theorem tokens_total_exact_up_to_2_53:
  assumes "(case gd_prompt_eval_count d of None \<Rightarrow> 0 | Some n \<Rightarrow> n) = of_nat a"
    and "(case gd_eval_count d of None \<Rightarrow> 0 | Some n \<Rightarrow> n) = of_nat b"
    and "a + b \<le> 2 ^ 53"
    and "(case cd_prompt_eval_count d' of None \<Rightarrow> 0 | Some n \<Rightarrow> n) = of_nat a'"
    and "(case cd_eval_count d' of None \<Rightarrow> 0 | Some n \<Rightarrow> n) = of_nat b'"
    and "a' + b' \<le> 2 ^ 53"
  shows "tk_prompt (rs_tokens (generate_response c request t0 d now1 now2)) = of_nat a
   \<and> tk_completion (rs_tokens (generate_response c request t0 d now1 now2)) = of_nat b
   \<and> tk_total (rs_tokens (generate_response c request t0 d now1 now2)) =
       Finite (tk_prompt (rs_tokens (generate_response c request t0 d now1 now2)) +
               tk_completion (rs_tokens (generate_response c request t0 d now1 now2)))
   \<and> tk_prompt (rs_tokens (chat_response c request t0 d' now1 now2)) = of_nat a'
   \<and> tk_completion (rs_tokens (chat_response c request t0 d' now1 now2)) = of_nat b'
   \<and> tk_total (rs_tokens (chat_response c request t0 d' now1 now2)) =
       Finite (tk_prompt (rs_tokens (chat_response c request t0 d' now1 now2)) +
               tk_completion (rs_tokens (chat_response c request t0 d' now1 now2)))"
proof -
  note t = tokens_are_backend_counts [of c request t0 d now1 now2 d']
  from t assms(1,2) have g: "tk_prompt (rs_tokens (generate_response c request t0 d now1 now2)) = of_nat a"
    "tk_completion (rs_tokens (generate_response c request t0 d now1 now2)) = of_nat b"
    by simp_all
  from t assms(4,5) have h: "tk_prompt (rs_tokens (chat_response c request t0 d' now1 now2)) = of_nat a'"
    "tk_completion (rs_tokens (chat_response c request t0 d' now1 now2)) = of_nat b'"
    by simp_all
  from t have gt: "tk_total (rs_tokens (generate_response c request t0 d now1 now2)) =
      js_add (of_nat a) (of_nat b)"
    by (simp only: g)
  from t have ht: "tk_total (rs_tokens (chat_response c request t0 d' now1 now2)) =
      js_add (of_nat a') (of_nat b')"
    by (simp only: h)
  show ?thesis
    by (simp only: g h gt ht js_add_exact [OF assms(3)] js_add_exact [OF assms(6)])
qed

theorem tokens_total_exact_up_to_2_53_witness:
  "(case gd_prompt_eval_count example_data of None \<Rightarrow> 0 | Some n \<Rightarrow> n) = 3
   \<and> (case gd_eval_count example_data of None \<Rightarrow> 0 | Some n \<Rightarrow> n) = 1
   \<and> (case cd_prompt_eval_count example_chat_data of None \<Rightarrow> 0 | Some n \<Rightarrow> n) = 0
   \<and> (case cd_eval_count example_chat_data of None \<Rightarrow> 0 | Some n \<Rightarrow> n) = 1
   \<and> (3::nat) + 1 \<le> 2 ^ 53 \<and> (0::nat) + 1 \<le> 2 ^ 53
   \<and> tk_total (rs_tokens (generate_response (ollama example_host) example_request 10
         example_data 20 30)) = Finite 4
   \<and> tk_total (rs_tokens (chat_response (ollama example_host) example_request 10
         example_chat_data 20 30)) = Finite 1"
proof -
  have a: "(case gd_prompt_eval_count example_data of None \<Rightarrow> 0 | Some n \<Rightarrow> n) = of_nat 3"
    and b: "(case gd_eval_count example_data of None \<Rightarrow> 0 | Some n \<Rightarrow> n) = of_nat 1"
    by (simp_all add: example_data_def)
  have a': "(case cd_prompt_eval_count example_chat_data of None \<Rightarrow> 0 | Some n \<Rightarrow> n) = of_nat 0"
    and b': "(case cd_eval_count example_chat_data of None \<Rightarrow> 0 | Some n \<Rightarrow> n) = of_nat 1"
    by (simp_all add: example_chat_data_def)
  have s: "(3::nat) + 1 \<le> 2 ^ 53" and s': "(0::nat) + 1 \<le> 2 ^ 53"
    by simp_all
  show ?thesis
    using a b a' b' s s'
      tokens_total_exact_up_to_2_53 [OF a b s a' b' s',
        of "ollama example_host" example_request 10 20 30]
    by simp
qed

text \<open>
  C2, as stated, fails from \<open>2 ^ 53\<close> on: the counts 9007199254740992 and 1 are non-negative
  integers, \<^verbatim>\<open>tokens.prompt\<close> and \<^verbatim>\<open>tokens.completion\<close> are these two numbers, and
  \<^verbatim>\<open>tokens.total\<close> is 9007199254740992, the double nearest to their sum, which is one less
  than the sum.
\<close>

theorem tokens_total_rounded_beyond_2_53:
  "tk_prompt (rs_tokens (generate_response (ollama example_host) example_request 10
         example_large_data 20 30)) = 9007199254740992
   \<and> tk_completion (rs_tokens (generate_response (ollama example_host) example_request 10
         example_large_data 20 30)) = 1
   \<and> tk_total (rs_tokens (generate_response (ollama example_host) example_request 10
         example_large_data 20 30)) = Finite 9007199254740992
   \<and> tk_total (rs_tokens (generate_response (ollama example_host) example_request 10
         example_large_data 20 30))
       \<noteq> Finite (tk_prompt (rs_tokens (generate_response (ollama example_host) example_request 10
                     example_large_data 20 30)) +
                  tk_completion (rs_tokens (generate_response (ollama example_host) example_request 10
                     example_large_data 20 30)))"
  by (simp add: generate_response_def example_large_data_def num_or_def double_defs)

section \<open>What each operation leaves alone\<close>

lemma link_open_conn: "link_open s \<Longrightarrow> \<exists>k. federationConnection s = Some k"
  by (simp add: link_open_def split: option.splits)

lemma link_open_eq:
  "federationConnection s' = federationConnection s \<Longrightarrow> sockets s' = sockets s \<Longrightarrow>
   link_open s' = link_open s"
  by (simp add: link_open_def cong: option.case_cong)

lemma ws_send_outbound:
  "link_open s \<Longrightarrow> outbound (ws_send msg s) = outbound s @ [(the (federationConnection s), msg)]"
proof -
  assume "link_open s"
  then obtain k where "federationConnection s = Some k"
    using link_open_conn by blast
  then show ?thesis by (simp add: ws_send_def)
qed

lemma ws_send_frame:
  "messageCache (ws_send msg s) = messageCache s"
  "processingQueue (ws_send msg s) = processingQueue s"
  "calls (ws_send msg s) = calls s"
  "sockets (ws_send msg s) = sockets s"
  "timers (ws_send msg s) = timers s"
  "phase (ws_send msg s) = phase s"
  "federationConnection (ws_send msg s) = federationConnection s"
  "clockReads (ws_send msg s) = clockReads s"
  "uuidsDrawn (ws_send msg s) = uuidsDrawn s"
  by (simp_all add: ws_send_def split: option.splits)

lemma processRequest_catch_frame:
  "messageCache (processRequest_catch h r e s) = messageCache s"
  "processingQueue (processRequest_catch h r e s) = processingQueue s"
  "calls (processRequest_catch h r e s) = calls s"
  "sockets (processRequest_catch h r e s) = sockets s"
  "timers (processRequest_catch h r e s) = timers s"
  "phase (processRequest_catch h r e s) = phase s"
  "federationConnection (processRequest_catch h r e s) = federationConnection s"
  by (simp_all add: processRequest_catch_def read_clock_def ws_send_frame)


lemma processRequest_then_frame:
  "messageCache (processRequest_then r resp s) = Map_set (messageCache s) (rq_id r) resp"
  "processingQueue (processRequest_then r resp s) = processingQueue s"
  "calls (processRequest_then r resp s) = calls s"
  "sockets (processRequest_then r resp s) = sockets s"
  "timers (processRequest_then r resp s) = timers s"
  "phase (processRequest_then r resp s) = phase s"
  "federationConnection (processRequest_then r resp s) = federationConnection s"
  by (simp_all add: processRequest_then_def Let_def ws_send_frame)

lemma processRequest_then_outbound:
  "outbound (processRequest_then r resp s) =
     (if link_open s
      then outbound s @ [(the (federationConnection s), response_message resp)]
      else outbound s)"
proof -
  let ?s1 = "s\<lparr>messageCache := Map_set (messageCache s) (rq_id r) resp\<rparr>"
  have eq: "link_open ?s1 = link_open s"
    by (rule link_open_eq) simp_all
  show ?thesis
  proof (cases "link_open s")
    case True
    with eq have "link_open ?s1" by simp
    from ws_send_outbound [OF this] True eq show ?thesis
      by (simp add: processRequest_then_def)
  next
    case False
    with eq show ?thesis by (simp add: processRequest_then_def)
  qed
qed

lemma processRequest_frame:
  "messageCache (processRequest h r s) = messageCache s"
  "processingQueue (processRequest h r s) = processingQueue s"
  "sockets (processRequest h r s) = sockets s"
  "timers (processRequest h r s) = timers s"
  "phase (processRequest h r s) = phase s"
  "federationConnection (processRequest h r s) = federationConnection s"
  by (simp_all add: processRequest_def read_clock_def processRequest_catch_frame split: sum.splits)

lemma processRequest_calls:
  "calls (processRequest h r s) =
     (case generate_request (ollama h) r of
        Inl e \<Rightarrow> calls s
      | Inr body \<Rightarrow> calls s @ [\<lparr> bc_body = body, bc_request = r,
                                  bc_startTime = Date_now h (clockReads s), bc_settled = False \<rparr>])"
  by (simp add: processRequest_def read_clock_def processRequest_catch_frame split: sum.splits)

lemma backend_resolved_frame:
  "processingQueue (backend_resolved h i d s) = processingQueue s"
  "sockets (backend_resolved h i d s) = sockets s"
  "timers (backend_resolved h i d s) = timers s"
  "phase (backend_resolved h i d s) = phase s"
  "federationConnection (backend_resolved h i d s) = federationConnection s"
  "length (calls (backend_resolved h i d s)) = length (calls s)"
  by (simp_all add: backend_resolved_def Let_def read_clock_def processRequest_then_frame)

lemma backend_rejected_frame:
  "messageCache (backend_rejected h i e s) = messageCache s"
  "processingQueue (backend_rejected h i e s) = processingQueue s"
  "sockets (backend_rejected h i e s) = sockets s"
  "timers (backend_rejected h i e s) = timers s"
  "phase (backend_rejected h i e s) = phase s"
  "federationConnection (backend_rejected h i e s) = federationConnection s"
  "length (calls (backend_rejected h i e s)) = length (calls s)"
  by (simp_all add: backend_rejected_def Let_def processRequest_catch_frame)

lemma backend_resolved_request:
  "j < length (calls s) \<Longrightarrow>
   bc_request (calls (backend_resolved h i d s) ! j) = bc_request (calls s ! j)"
  by (cases "j = i") (simp_all add: backend_resolved_def Let_def read_clock_def processRequest_then_frame)

lemma backend_rejected_request:
  "j < length (calls s) \<Longrightarrow>
   bc_request (calls (backend_rejected h i e s) ! j) = bc_request (calls s ! j)"
  by (cases "j = i") (simp_all add: backend_rejected_def Let_def processRequest_catch_frame)

lemma handleFederationMessage_frame:
  "messageCache (handleFederationMessage h m s) = messageCache s"
  "sockets (handleFederationMessage h m s) = sockets s"
  "timers (handleFederationMessage h m s) = timers s"
  "phase (handleFederationMessage h m s) = phase s"
  "federationConnection (handleFederationMessage h m s) = federationConnection s"
  by (simp_all add: handleFederationMessage_def handleFederationMessage_try_def Let_def
        draw_uuid_def read_clock_def processRequest_frame split: sum.splits)

lemma handleFederationMessage_queue:
  "prefix (processingQueue s) (processingQueue (handleFederationMessage h m s))"
  by (simp add: handleFederationMessage_def handleFederationMessage_try_def Let_def
        draw_uuid_def read_clock_def processRequest_frame split: sum.splits)

lemma handleFederationMessage_calls:
  "prefix (calls s) (calls (handleFederationMessage h m s))"
  by (simp add: handleFederationMessage_def handleFederationMessage_try_def Let_def
        draw_uuid_def read_clock_def processRequest_calls split: sum.splits)

lemma link_frame:
  "processingQueue (set_readyState k r s) = processingQueue s"
  "outbound (set_readyState k r s) = outbound s"
  "calls (set_readyState k r s) = calls s"
  "messageCache (set_readyState k r s) = messageCache s"
  "processingQueue (resolve_connect k s) = processingQueue s"
  "outbound (resolve_connect k s) = outbound s"
  "calls (resolve_connect k s) = calls s"
  "messageCache (resolve_connect k s) = messageCache s"
  "processingQueue (reject_connect h k s) = processingQueue s"
  "outbound (reject_connect h k s) = outbound s"
  "calls (reject_connect h k s) = calls s"
  "messageCache (reject_connect h k s) = messageCache s"
  "processingQueue (on_close s) = processingQueue s"
  "outbound (on_close s) = outbound s"
  "calls (on_close s) = calls s"
  "messageCache (on_close s) = messageCache s"
  "processingQueue (timer_fired i s) = processingQueue s"
  "outbound (timer_fired i s) = outbound s"
  "calls (timer_fired i s) = calls s"
  "messageCache (timer_fired i s) = messageCache s"
  by (simp_all add: set_readyState_def resolve_connect_def reject_connect_def on_close_def
        timer_fired_def connectToFederation_def set_promise_def Let_def)

lemma step_queue_prefix: "prefix (processingQueue s) (processingQueue (step h s e))"
  by (cases e)
     (simp_all add: step_def link_frame handleFederationMessage_queue
        backend_resolved_frame backend_rejected_frame)

lemma run_queue_prefix: "prefix (processingQueue s) (processingQueue (run h s es))"
proof (induction es arbitrary: s)
  case Nil
  show ?case by (simp add: run_def)
next
  case (Cons e es)
  have "prefix (processingQueue s) (processingQueue (step h s e))"
    by (rule step_queue_prefix)
  also have "prefix (processingQueue (step h s e)) (processingQueue (run h (step h s e) es))"
    by (rule Cons.IH)
  finally show ?case by (simp add: run_def)
qed





lemmas run_defs = run_def step_def alive_def main_def new_SemanticBridge_def
  connectToFederation_def Map_new_def resolve_connect_def reject_connect_def set_readyState_def
  set_promise_def on_close_def timer_fired_def reconnectDelay_def handleFederationMessage_def
  handleFederationMessage_try_def js_get_def draw_uuid_def read_clock_def processRequest_def
  processRequest_then_def processRequest_catch_def generate_request_def js_or_def
  backend_resolved_def backend_rejected_def link_open_def ws_send_def generate_response_def
  num_or_def response_message_def error_message_def example_host_def example_parse_def
  example_data_def example_request_def example_response_def example_timeout_def Let_def

section \<open>Malformed messages\<close>

lemma handleFederationMessage_try_malformed:
  assumes "isl (JSON_parse h message) \<or> (\<exists>d. JSON_parse h message = Inr d \<and> \<not> has_field d ''type'')"
  shows "handleFederationMessage_try h message s = Inr s \<or> isl (handleFederationMessage_try h message s)"
proof (cases "JSON_parse h message")
  case (Inl e)
  then show ?thesis by (simp add: handleFederationMessage_try_def)
next
  case (Inr d)
  with assms have nf: "\<not> has_field d ''type''" by auto
  show ?thesis
  proof (cases "js_get d ''type''")
    case (Inl e)
    with Inr show ?thesis by (simp add: handleFederationMessage_try_def)
  next
    case (Inr v)
    with nf have "v = JUndefined" by (simp add: has_field_def)
    with Inr \<open>JSON_parse h message = Inr d\<close> show ?thesis
      by (simp add: handleFederationMessage_try_def)
  qed
qed

text \<open>
  C6. An inbound payload that \<^verbatim>\<open>JSON.parse\<close> rejects, or whose parsed value has no \<^verbatim>\<open>type\<close>
  field, is discarded: \<^verbatim>\<open>handleFederationMessage\<close> returns normally with the state it was
  given, so no outbound message is produced and the queue length and the cache size of
  \<^verbatim>\<open>getStats\<close> are what they were.
\<close>

theorem malformed_message_discarded:
  assumes "isl (JSON_parse h message) \<or> (\<exists>d. JSON_parse h message = Inr d \<and> \<not> has_field d ''type'')"
  shows "handleFederationMessage h message s = s
   \<and> step h s (WsMessage k message) = s
   \<and> outbound (step h s (WsMessage k message)) = outbound s
   \<and> queueLength (getStats (step h s (WsMessage k message))) = queueLength (getStats s)
   \<and> cacheSize (getStats (step h s (WsMessage k message))) = cacheSize (getStats s)"
proof -
  have m: "handleFederationMessage h message s = s"
    using handleFederationMessage_try_malformed [OF assms, of s]
    by (auto simp: handleFederationMessage_def isl_def)
  then have "step h s (WsMessage k message) = s"
    by (simp add: step_def)
  with m show ?thesis by simp
qed

theorem malformed_message_discarded_witness:
  \<open>JSON_parse example_host ''{"id":"msg-5","prompt":"2+2?"}'' =
     Inr (JObj [(''id'', JStr ''msg-5''), (''prompt'', JStr ''2+2?'')])
   \<and> \<not> has_field (JObj [(''id'', JStr ''msg-5''), (''prompt'', JStr ''2+2?'')]) ''type''
   \<and> step example_host main (WsMessage 0 ''{"id":"msg-5","prompt":"2+2?"}'') = main
   \<and> isl (JSON_parse example_host ''{oops'')
   \<and> step example_host main (WsMessage 0 ''{oops'') = main\<close>
proof -
  have p: \<open>JSON_parse example_host ''{"id":"msg-5","prompt":"2+2?"}'' =
     Inr (JObj [(''id'', JStr ''msg-5''), (''prompt'', JStr ''2+2?'')])\<close>
    by (simp add: example_host_def example_parse_def)
  have n: "\<not> has_field (JObj [(''id'', JStr ''msg-5''), (''prompt'', JStr ''2+2?'')]) ''type''"
    by (simp add: has_field_def js_get_def)
  have g: "isl (JSON_parse example_host ''{oops'')"
    by (simp add: example_host_def example_parse_def)
  from p n have a: \<open>isl (JSON_parse example_host ''{"id":"msg-5","prompt":"2+2?"}'') \<or>
      (\<exists>d. JSON_parse example_host ''{"id":"msg-5","prompt":"2+2?"}'' = Inr d \<and> \<not> has_field d ''type'')\<close>
    by simp
  from g have b: "isl (JSON_parse example_host ''{oops'') \<or>
      (\<exists>d. JSON_parse example_host ''{oops'' = Inr d \<and> \<not> has_field d ''type'')"
    by simp
  show ?thesis
    using p n g malformed_message_discarded [OF a, of main 0]
      malformed_message_discarded [OF b, of main 0]
    by simp
qed

section \<open>The processing queue\<close>

text \<open>
  C8. Whatever events the process handles, in any number and order, the processing queue only
  grows at its end: the queue before is a prefix of the queue after, no entry is removed, and
  the \<^verbatim>\<open>queueLength\<close> of \<^verbatim>\<open>getStats\<close> never decreases.
\<close>

theorem queue_never_shrinks:
  "prefix (processingQueue s) (processingQueue (run h s es))
   \<and> queueLength (getStats s) \<le> queueLength (getStats (run h s es))"
  using run_queue_prefix [of s h es] by (simp add: getStats_def prefix_length_le)

section \<open>Sending over the relay link\<close>



section \<open>The continuations of a backend call\<close>

lemma backend_resolved_valid:
  assumes "i < length (calls s)" "\<not> bc_settled (calls s ! i)"
  shows "messageCache (backend_resolved h i d s) =
           Map_set (messageCache s) (rq_id (bc_request (calls s ! i)))
             (generate_response (ollama h) (bc_request (calls s ! i)) (bc_startTime (calls s ! i)) d
                (Date_now h (clockReads s)) (Date_now h (Suc (clockReads s))))"
    and "outbound (backend_resolved h i d s) =
           (if link_open s
            then outbound s @ [(the (federationConnection s),
                   response_message (generate_response (ollama h) (bc_request (calls s ! i))
                      (bc_startTime (calls s ! i)) d
                      (Date_now h (clockReads s)) (Date_now h (Suc (clockReads s)))))]
            else outbound s)"
    and "bc_settled (calls (backend_resolved h i d s) ! i)"
proof -
  let ?s3 = "s\<lparr>calls := (calls s)[i := (calls s ! i)\<lparr>bc_settled := True\<rparr>],
               clockReads := Suc (Suc (clockReads s))\<rparr>"
  let ?r = "generate_response (ollama h) (bc_request (calls s ! i)) (bc_startTime (calls s ! i)) d
                (Date_now h (clockReads s)) (Date_now h (Suc (clockReads s)))"
  have eq: "backend_resolved h i d s = processRequest_then (bc_request (calls s ! i)) ?r ?s3"
    using assms by (simp add: backend_resolved_def Let_def read_clock_def)
  have lo: "link_open ?s3 = link_open s"
    by (rule link_open_eq) simp_all
  show "messageCache (backend_resolved h i d s) =
           Map_set (messageCache s) (rq_id (bc_request (calls s ! i))) ?r"
    by (simp add: eq processRequest_then_frame)
  show "outbound (backend_resolved h i d s) =
           (if link_open s
            then outbound s @ [(the (federationConnection s), response_message ?r)]
            else outbound s)"
    by (simp add: eq processRequest_then_outbound lo)
  show "bc_settled (calls (backend_resolved h i d s) ! i)"
    using assms by (simp add: eq processRequest_then_frame)
qed



lemma offline_facts:
  "alive example_offline" "0 < length (calls example_offline)"
  "\<not> bc_settled (calls example_offline ! 0)" "\<not> link_open example_offline"
  "rq_id (bc_request (calls example_offline ! 0)) = JStr ''msg-2''"
  "outbound example_offline = []"
  "messageCache example_offline = []"
  by (simp_all add: example_offline_def run_defs)

text \<open>
  C10. When the backend answers a pending call, the response that \<^verbatim>\<open>generate\<close> builds is put
  into the cache under the identifier of the request before the link is looked at: afterwards
  \<^verbatim>\<open>getResponse\<close> of that identifier returns this response whatever the state of the relay
  link, and when the link is not open nothing is sent.
\<close>

theorem response_cached_whatever_the_link:
  assumes "alive s" "i < length (calls s)" "\<not> bc_settled (calls s ! i)"
  shows "getResponse (step h s (BackendResolved i d)) (rq_id (bc_request (calls s ! i))) =
           Some (generate_response (ollama h) (bc_request (calls s ! i)) (bc_startTime (calls s ! i)) d
                   (Date_now h (clockReads s)) (Date_now h (Suc (clockReads s))))
         \<and> (\<not> link_open s \<longrightarrow> outbound (step h s (BackendResolved i d)) = outbound s)"
  using assms backend_resolved_valid [of i s h d]
  by (simp add: step_def getResponse_def Map_get_set_same)

theorem response_cached_whatever_the_link_witness:
  "alive example_offline \<and> 0 < length (calls example_offline)
   \<and> \<not> bc_settled (calls example_offline ! 0) \<and> \<not> link_open example_offline
   \<and> rq_id (bc_request (calls example_offline ! 0)) = JStr ''msg-2''
   \<and> getResponse (step example_host example_offline (BackendResolved 0 example_data)) (JStr ''msg-2'')
       = Some (generate_response (ollama example_host) (bc_request (calls example_offline ! 0))
                 (bc_startTime (calls example_offline ! 0)) example_data
                 (Date_now example_host (clockReads example_offline))
                 (Date_now example_host (Suc (clockReads example_offline))))
   \<and> outbound (step example_host example_offline (BackendResolved 0 example_data)) = []"
  using offline_facts
    response_cached_whatever_the_link [OF offline_facts(1,2,3), of example_host example_data]
  by simp




section \<open>Sampling parameters\<close>

text \<open>
  A temperature that is truthy (a number other than zero, inside or outside the interval from
  0 to 1) reaches the backend as it came.
\<close>

lemma temperature_forwarded_when_truthy:
  "truthy (rq_temperature request) \<Longrightarrow> generate_request c request = Inr body \<Longrightarrow>
   gb_temperature body = rq_temperature request"
  by (auto simp: generate_request_def js_or_def split: jsval.splits)

lemma nonzero_temperature_forwarded:
  "t \<noteq> 0 \<Longrightarrow> rq_temperature request = JNum t \<Longrightarrow> rq_prompt request = JStr p \<Longrightarrow>
   \<exists>body. generate_request c request = Inr body \<and> gb_temperature body = JNum t"
  by (simp add: generate_request_def js_or_def)

text \<open>
  C4. The temperature 0 lies in the interval from 0 to 1 and is not forwarded: \<^verbatim>\<open>generate\<close>
  computes \<^verbatim>\<open>request.temperature || 0.7\<close>, and 0 is falsy, so the backend receives 0.7. The
  second half runs the bridge on the relay text whose temperature is 0 and pairs the
  temperature of the request with the one of the backend call.
\<close>

theorem temperature_zero_replaced_by_default:
  \<open>generate_request (ollama example_host) (example_request\<lparr>rq_temperature := JNum 0\<rparr>) =
     Inr \<lparr> gb_model = JStr ''mistral'', gb_prompt = JStr ''2+2?'', gb_temperature = JNum (7 / 10),
           gb_top_k = JNum 40, gb_top_p = JNum (9 / 10), gb_stream = False \<rparr>
   \<and> map (\<lambda>c. (rq_temperature (bc_request c), gb_temperature (bc_body c)))
        (calls (run example_host main
           [WsOpen 0,
            WsMessage 0 ''{"type":"semantic_request","id":"msg-4","prompt":"2+2?","temperature":0}'']))
      = [(JNum 0, JNum (7 / 10))]\<close>
  by (simp add: run_defs)

section \<open>The identifier of a response\<close>

lemma prefix_nth: "prefix xs ys \<Longrightarrow> j < length xs \<Longrightarrow> ys ! j = xs ! j"
  by (auto simp: prefix_def nth_append)

lemma step_request_preserved:
  assumes "j < length (calls s)"
  shows "j < length (calls (step h s e)) \<and>
         bc_request (calls (step h s e) ! j) = bc_request (calls s ! j)"
proof (cases "alive s")
  case False
  with assms show ?thesis by (simp add: step_def)
next
  case True
  show ?thesis
  proof (cases e)
    case (WsMessage k m)
    have p: "prefix (calls s) (calls (handleFederationMessage h m s))"
      by (rule handleFederationMessage_calls)
    from prefix_nth [OF p assms] prefix_length_le [OF p] assms WsMessage True
    show ?thesis by (simp add: step_def)
  next
    case (BackendResolved i d)
    with assms True show ?thesis
      by (simp add: step_def backend_resolved_frame backend_resolved_request)
  next
    case (BackendRejected i err)
    with assms True show ?thesis
      by (simp add: step_def backend_rejected_frame backend_rejected_request)
  qed (use assms True in \<open>simp_all add: step_def link_frame\<close>)
qed

lemma run_request_preserved:
  "j < length (calls s) \<Longrightarrow>
   j < length (calls (run h s es)) \<and> bc_request (calls (run h s es) ! j) = bc_request (calls s ! j)"
proof (induction es arbitrary: s)
  case Nil
  then show ?case by (simp add: run_def)
next
  case (Cons e es)
  from step_request_preserved [OF Cons.prems, of h e]
  have a: "j < length (calls (step h s e))"
    and b: "bc_request (calls (step h s e) ! j) = bc_request (calls s ! j)"
    by simp_all
  from Cons.IH [OF a] b show ?case by (simp add: run_def)
qed

lemma valid_request_dispatched:
  assumes "JSON_parse h message = Inr d" "js_lookup d ''type'' = JStr ''semantic_request''"
    "truthy (js_lookup d ''id'')" "js_lookup d ''prompt'' = JStr p"
  shows "\<exists>c. calls (handleFederationMessage h message s) = calls s @ [c]
             \<and> rq_id (bc_request c) = js_lookup d ''id'' \<and> \<not> bc_settled c"
proof -
  have "\<not> nullish d"
    using assms(2) by (cases d) simp_all
  then have "js_get d ''type'' = Inr (JStr ''semantic_request'')"
    using assms(2) by (simp add: js_get_def)
  with assms show ?thesis
    by (simp add: handleFederationMessage_def handleFederationMessage_try_def Let_def
          read_clock_def processRequest_calls generate_request_def)
qed

lemma response_message_fields:
  "js_lookup (response_message r) ''type'' = JStr ''semantic_response''"
  "js_lookup (response_message r) ''id'' = rs_id r"
  by (simp_all add: response_message_def)

text \<open>
  C3, as the code has it. Take an inbound \<^verbatim>\<open>semantic_request\<close> whose prompt is a string and
  whose \<^verbatim>\<open>id\<close> is truthy (for a string: not empty). The handler makes one backend call for it.
  Whatever happens in between, when that call is answered the bridge sends either nothing or
  exactly one message, a \<^verbatim>\<open>semantic_response\<close> whose \<^verbatim>\<open>id\<close> is the \<^verbatim>\<open>id\<close> of the inbound
  message; and it does send it when the process runs, the link is open and the call was still
  pending.
\<close>

theorem response_echoes_nonempty_id:
  assumes "alive s" "k < length (sockets s)" "JSON_parse h message = Inr d"
    "js_lookup d ''type'' = JStr ''semantic_request''" "truthy (js_lookup d ''id'')"
    "js_lookup d ''prompt'' = JStr p"
  shows "length (calls (step h s (WsMessage k message))) = Suc (length (calls s))
    \<and> (outbound (step h (run h (step h s (WsMessage k message)) es)
                    (BackendResolved (length (calls s)) data))
          = outbound (run h (step h s (WsMessage k message)) es)
        \<or> (\<exists>m. outbound (step h (run h (step h s (WsMessage k message)) es)
                         (BackendResolved (length (calls s)) data))
                 = outbound (run h (step h s (WsMessage k message)) es)
                   @ [(the (federationConnection (run h (step h s (WsMessage k message)) es)), m)]
               \<and> js_lookup m ''type'' = JStr ''semantic_response''
               \<and> js_lookup m ''id'' = js_lookup d ''id''))
    \<and> (alive (run h (step h s (WsMessage k message)) es)
        \<and> link_open (run h (step h s (WsMessage k message)) es)
        \<and> \<not> bc_settled (calls (run h (step h s (WsMessage k message)) es) ! length (calls s))
        \<longrightarrow> outbound (step h (run h (step h s (WsMessage k message)) es)
                        (BackendResolved (length (calls s)) data))
              \<noteq> outbound (run h (step h s (WsMessage k message)) es))"
proof -
  let ?i = "length (calls s)"
  let ?s1 = "step h s (WsMessage k message)"
  let ?s2 = "run h ?s1 es"
  let ?s3 = "step h ?s2 (BackendResolved ?i data)"
  have s1: "?s1 = handleFederationMessage h message s"
    using assms(1,2) by (simp add: step_def)
  from valid_request_dispatched [OF assms(3-6), of s]
  obtain c where c: "calls ?s1 = calls s @ [c]" and cid: "rq_id (bc_request c) = js_lookup d ''id''"
    by (auto simp: s1)
  from c have len: "length (calls ?s1) = Suc ?i" and i1: "?i < length (calls ?s1)"
    and r1: "bc_request (calls ?s1 ! ?i) = bc_request c"
    by simp_all
  from run_request_preserved [OF i1, of h es] r1
  have i2: "?i < length (calls ?s2)" and r2: "bc_request (calls ?s2 ! ?i) = bc_request c"
    by simp_all
  let ?r = "generate_response (ollama h) (bc_request (calls ?s2 ! ?i)) (bc_startTime (calls ?s2 ! ?i))
              data (Date_now h (clockReads ?s2)) (Date_now h (Suc (clockReads ?s2)))"
  have rid: "rs_id ?r = js_lookup d ''id''"
    using r2 cid by (simp add: generate_response_def)
  show ?thesis
  proof (cases "alive ?s2 \<and> \<not> bc_settled (calls ?s2 ! ?i)")
    case False
    then have "?s3 = ?s2"
      by (auto simp: step_def backend_resolved_def)
    with False len show ?thesis by auto
  next
    case True
    then have s3: "?s3 = backend_resolved h ?i data ?s2"
      by (simp add: step_def)
    from True have ns: "\<not> bc_settled (calls ?s2 ! ?i)" by simp
    have ob: "outbound ?s3 =
        (if link_open ?s2
         then outbound ?s2 @ [(the (federationConnection ?s2), response_message ?r)]
         else outbound ?s2)"
      unfolding s3 by (rule backend_resolved_valid(2) [OF i2 ns])
    show ?thesis
    proof (cases "link_open ?s2")
      case False
      with ob len show ?thesis by simp
    next
      case lo: True
      with ob have "outbound ?s3 = outbound ?s2 @ [(the (federationConnection ?s2), response_message ?r)]"
        by simp
      moreover have "js_lookup (response_message ?r) ''type'' = JStr ''semantic_response''"
        and "js_lookup (response_message ?r) ''id'' = js_lookup d ''id''"
        using rid by (simp_all add: response_message_fields)
      ultimately show ?thesis using len by auto
    qed
  qed
qed

theorem response_echoes_nonempty_id_witness:
  \<open>alive (run example_host main [WsOpen 0])
   \<and> 0 < length (sockets (run example_host main [WsOpen 0]))
   \<and> JSON_parse example_host ''{"type":"semantic_request","id":"msg-1","prompt":"2+2?"}'' =
       Inr (JObj [(''type'', JStr ''semantic_request''), (''id'', JStr ''msg-1''),
                  (''prompt'', JStr ''2+2?'')])
   \<and> truthy (JStr ''msg-1'')
   \<and> map (\<lambda>(k, m). (js_lookup m ''type'', js_lookup m ''id''))
        (outbound (step example_host
           (run example_host
              (step example_host (run example_host main [WsOpen 0])
                 (WsMessage 0 ''{"type":"semantic_request","id":"msg-1","prompt":"2+2?"}''))
              [StatsInterval])
           (BackendResolved (length (calls (run example_host main [WsOpen 0]))) example_data)))
      = [(JStr ''semantic_response'', JStr ''msg-1'')]\<close>
proof -
  let ?d = "JObj [(''type'', JStr ''semantic_request''), (''id'', JStr ''msg-1''),
                  (''prompt'', JStr ''2+2?'')]"
  have a: "alive (run example_host main [WsOpen 0])"
    and b: "0 < length (sockets (run example_host main [WsOpen 0]))"
    by (simp_all add: run_defs)
  have c: \<open>JSON_parse example_host ''{"type":"semantic_request","id":"msg-1","prompt":"2+2?"}'' = Inr ?d\<close>
    by (simp add: example_host_def example_parse_def)
  have d: "js_lookup ?d ''type'' = JStr ''semantic_request''"
    and e: "truthy (js_lookup ?d ''id'')"
    and f: "js_lookup ?d ''prompt'' = JStr ''2+2?''"
    by simp_all
  show ?thesis
    using response_echoes_nonempty_id [OF a b c d e f, of "[StatsInterval]" example_data] c
    by (simp add: run_defs)
qed

text \<open>
  C3, as stated, fails for an \<^verbatim>\<open>id\<close> that is present and empty: \<^verbatim>\<open>data.id || uuidv4()\<close> takes
  the empty string for a missing one, and the response carries the generated identifier.
\<close>

theorem empty_id_replaced_by_uuid:
  \<open>JSON_parse example_host ''{"type":"semantic_request","id":"","prompt":"2+2?"}'' =
       Inr (JObj [(''type'', JStr ''semantic_request''), (''id'', JStr []),
                  (''prompt'', JStr ''2+2?'')])
   \<and> has_field (JObj [(''type'', JStr ''semantic_request''), (''id'', JStr []),
                       (''prompt'', JStr ''2+2?'')]) ''id''
   \<and> map (\<lambda>(k, m). (js_lookup m ''type'', js_lookup m ''id''))
        (outbound (run example_host main
           [WsOpen 0, WsMessage 0 ''{"type":"semantic_request","id":"","prompt":"2+2?"}'',
            BackendResolved 0 example_data]))
      = [(JStr ''semantic_response'', JStr ''uuid-'')]\<close>
  by (simp add: run_defs has_field_def)

section \<open>The reconnect loop\<close>

lemma run_append: "run h s (es1 @ es2) = run h (run h s es1) es2"
  by (simp add: run_def)

lemma run_exited: "\<not> alive s \<Longrightarrow> run h s es = s"
  by (induction es) (simp_all add: run_def step_def)

lemma alive_run_prefix:
  assumes "alive (run h s (es1 @ es2))"
  shows "alive (run h s es1)"
proof (rule ccontr)
  assume dead: "\<not> alive (run h s es1)"
  then have "run h (run h s es1) es2 = run h s es1"
    by (rule run_exited)
  then have "run h s (es1 @ es2) = run h s es1"
    by (simp only: run_append)
  with assms dead show False by simp
qed

lemma error_event:
  assumes "phase s = Running" "k < length (sockets s)"
  shows "\<not> alive (step h s (WsError k err))
         \<or> (phase (step h s (WsError k err)) = Running
             \<and> timers (step h s (WsError k err)) = timers s
             \<and> length (sockets (step h s (WsError k err))) = length (sockets s))"
  using assms
  by (simp add: step_def alive_def reject_connect_def set_promise_def Let_def)

lemma close_event:
  assumes "phase s = Running" "k < length (sockets s)"
  shows "phase (step h s (WsClose k)) = Running"
    and "timers (step h s (WsClose k)) = timers s @ [reconnectDelay]"
    and "length (sockets (step h s (WsClose k))) = length (sockets s)"
  using assms
  by (simp_all add: step_def alive_def on_close_def set_readyState_def)

lemma timer_event:
  assumes "phase s = Running" "timers s = [d]"
  shows "phase (step h s (TimerFired 0)) = Running"
    and "timers (step h s (TimerFired 0)) = []"
    and "length (sockets (step h s (TimerFired 0))) = Suc (length (sockets s))"
  using assms
  by (simp_all add: step_def alive_def timer_fired_def connectToFederation_def)

lemma one_failure:
  assumes "phase s = Running" "timers s = []" "attempts s = Suc k"
    and live: "alive (run h s (failure k err))"
  shows "phase (run h s (failure k err)) = Running"
    and "timers (run h s (failure k err)) = [reconnectDelay]"
    and "attempts (run h s (failure k err)) = Suc k"
proof -
  let ?s1 = "step h s (WsError k err)"
  have k: "k < length (sockets s)"
    using assms(3) by (simp add: attempts_def)
  have r: "run h s (failure k err) = step h ?s1 (WsClose k)"
    by (simp add: run_def failure_def)
  have "alive ?s1"
  proof (rule ccontr)
    assume dead: "\<not> alive ?s1"
    then have "step h ?s1 (WsClose k) = ?s1"
      by (simp add: step_def)
    with live dead show False by (simp only: r)
  qed
  with error_event [OF assms(1) k, of h err]
  have p1: "phase ?s1 = Running" and t1: "timers ?s1 = timers s"
    and l1: "length (sockets ?s1) = length (sockets s)"
    by auto
  from k l1 have k1: "k < length (sockets ?s1)" by simp
  show "phase (run h s (failure k err)) = Running"
    unfolding r by (rule close_event(1) [OF p1 k1])
  show "timers (run h s (failure k err)) = [reconnectDelay]"
    unfolding r using close_event(2) [OF p1 k1, of h] t1 assms(2) by simp
  show "attempts (run h s (failure k err)) = Suc k"
    unfolding r using close_event(3) [OF p1 k1, of h] l1 assms(3) by (simp add: attempts_def)
qed

lemma one_round:
  assumes "phase s = Running" "timers s = []" "attempts s = Suc k"
    and live: "alive (run h s (failure k err))"
  shows "phase (run h s (failure k err @ [TimerFired 0])) = Running"
    and "timers (run h s (failure k err @ [TimerFired 0])) = []"
    and "attempts (run h s (failure k err @ [TimerFired 0])) = Suc (Suc k)"
proof -
  let ?s2 = "run h s (failure k err)"
  note f = one_failure [OF assms]
  have r: "run h s (failure k err @ [TimerFired 0]) = step h ?s2 (TimerFired 0)"
    by (simp add: run_append run_def)
  show "phase (run h s (failure k err @ [TimerFired 0])) = Running"
    unfolding r by (rule timer_event(1) [OF f(1) f(2)])
  show "timers (run h s (failure k err @ [TimerFired 0])) = []"
    unfolding r by (rule timer_event(2) [OF f(1) f(2)])
  show "attempts (run h s (failure k err @ [TimerFired 0])) = Suc (Suc k)"
    unfolding r using timer_event(3) [OF f(1) f(2), of h] f(3) by (simp add: attempts_def)
qed

lemma failures_invariant:
  "phase s = Running \<Longrightarrow> timers s = [] \<Longrightarrow> attempts s = Suc k \<Longrightarrow>
   alive (run h s (failures n k err)) \<Longrightarrow>
   phase (run h s (failures n k err)) = Running
   \<and> timers (run h s (failures n k err)) = []
   \<and> attempts (run h s (failures n k err)) = Suc k + n"
proof (induction n arbitrary: s k)
  case 0
  then show ?case by (simp add: run_def)
next
  case (Suc n)
  let ?s3 = "run h s (failure k err @ [TimerFired 0])"
  have "failures (Suc n) k err = (failure k err @ [TimerFired 0]) @ failures n (Suc k) err"
    by simp
  then have split: "run h s (failures (Suc n) k err) = run h ?s3 (failures n (Suc k) err)"
    by (simp only: run_append)
  have "alive (run h s ((failure k err @ [TimerFired 0]) @ failures n (Suc k) err))"
    using Suc.prems(4) by simp
  then have "alive ?s3" by (rule alive_run_prefix)
  then have live: "alive (run h s (failure k err))" by (rule alive_run_prefix)
  note r = one_round [OF Suc.prems(1-3) live]
  have "alive (run h ?s3 (failures n (Suc k) err))"
    using Suc.prems(4) split by simp
  from Suc.IH [OF r(1) r(2) r(3) this]
  have "phase (run h ?s3 (failures n (Suc k) err)) = Running
        \<and> timers (run h ?s3 (failures n (Suc k) err)) = []
        \<and> attempts (run h ?s3 (failures n (Suc k) err)) = Suc k + Suc n"
    by simp
  then show ?case
    unfolding split .
qed

lemma failures_2: "failures 2 k err = failure k err @ [TimerFired 0] @ failure (Suc k) err @ [TimerFired 0]"
  by (simp add: numeral_2_eq_2)

text \<open>
  C9, as the code has it. The first connection attempt is the one \<^verbatim>\<open>main\<close> awaits: when it
  fails the process ends with status 1 and no reconnect attempt is made. In a process whose
  first attempt succeeded, with no timer pending and \<open>k\<close> the latest socket, \<open>n\<close> failures in
  a row that the process survives are followed by exactly \<open>n\<close> further attempts; and a
  next failure that the process survives leaves exactly one timer pending, set with the fixed
  delay of 5000 ms, whose firing makes exactly one more attempt. The delay does not grow and
  \<open>n\<close> is not bounded.
\<close>

theorem reconnect_after_each_survived_failure:
  assumes "phase s = Running" "timers s = []" "attempts s = Suc k"
    and "alive (run h s (failures n k err))"
  shows "attempts (run h s (failures n k err)) = attempts s + n
    \<and> timers (run h s (failures n k err)) = []
    \<and> (alive (run h s (failures n k err @ failure (k + n) err)) \<longrightarrow>
         timers (run h s (failures n k err @ failure (k + n) err)) = [reconnectDelay]
         \<and> attempts (run h s (failures n k err @ failure (k + n) err @ [TimerFired 0]))
             = attempts s + Suc n)
    \<and> phase (run h main (failure 0 err)) = Exited 1
    \<and> attempts (run h main (failure 0 err @ [TimerFired 0])) = attempts main"
proof -
  let ?sn = "run h s (failures n k err)"
  from failures_invariant [OF assms]
  have p: "phase ?sn = Running" and t: "timers ?sn = []" and a: "attempts ?sn = Suc (k + n)"
    by simp_all
  have next_failure: "timers (run h s (failures n k err @ failure (k + n) err)) = [reconnectDelay]
      \<and> attempts (run h s (failures n k err @ failure (k + n) err @ [TimerFired 0])) = attempts s + Suc n"
    if live: "alive (run h s (failures n k err @ failure (k + n) err))"
  proof -
    from live have l: "alive (run h ?sn (failure (k + n) err))"
      by (simp only: run_append)
    have "timers (run h ?sn (failure (k + n) err)) = [reconnectDelay]"
      by (rule one_failure(2) [OF p t a l])
    moreover have "attempts (run h ?sn (failure (k + n) err @ [TimerFired 0])) = Suc (Suc (k + n))"
      by (rule one_round(3) [OF p t a l])
    ultimately show ?thesis
      using assms(3) by (simp only: run_append) simp
  qed
  have boot: "phase (run h main (failure 0 err)) = Exited 1
      \<and> attempts (run h main (failure 0 err @ [TimerFired 0])) = attempts main"
    by (simp add: failure_def attempts_def run_def step_def alive_def main_def
          new_SemanticBridge_def connectToFederation_def reject_connect_def set_promise_def)
  from a assms(3) t next_failure boot show ?thesis
    by simp
qed

theorem reconnect_after_each_survived_failure_witness:
  "phase (run lenient_host main [WsOpen 0]) = Running
   \<and> timers (run lenient_host main [WsOpen 0]) = []
   \<and> attempts (run lenient_host main [WsOpen 0]) = Suc 0
   \<and> alive (run lenient_host (run lenient_host main [WsOpen 0]) (failures 2 0 example_refused))
   \<and> attempts (run lenient_host (run lenient_host main [WsOpen 0]) (failures 2 0 example_refused)) = 3
   \<and> alive (run lenient_host (run lenient_host main [WsOpen 0])
              (failures 2 0 example_refused @ failure 2 example_refused))
   \<and> timers (run lenient_host (run lenient_host main [WsOpen 0])
              (failures 2 0 example_refused @ failure 2 example_refused)) = [5000]"
proof -
  let ?s = "run lenient_host main [WsOpen 0]"
  have a: "phase ?s = Running" and b: "timers ?s = []" and c: "attempts ?s = Suc 0"
    by (simp_all add: lenient_host_def attempts_def run_defs)
  have d: "alive (run lenient_host ?s (failures 2 0 example_refused))"
    by (simp add: failures_2 failure_def lenient_host_def run_defs)
  have e: "alive (run lenient_host ?s (failures 2 0 example_refused @ failure 2 example_refused))"
    by (simp add: failures_2 failure_def lenient_host_def run_defs)
  show ?thesis
    using a b c d e reconnect_after_each_survived_failure [OF a b c d]
    by (simp add: reconnectDelay_def numeral_2_eq_2)
qed

text \<open>
  C9, as stated, fails for \<open>N = 1\<close> when the failure is the one of the first attempt: the
  \<^verbatim>\<open>error\<close> handler rejects the promise that \<^verbatim>\<open>initialize\<close> awaits, \<^verbatim>\<open>main\<close> calls
  \<^verbatim>\<open>process.exit(1)\<close>, and nothing runs any more, the reconnect timer of the \<^verbatim>\<open>close\<close> handler
  included: one failure, no reconnect attempt. This does not depend on how the host treats
  unhandled rejections.
\<close>

theorem initial_failure_ends_process:
  "attempts main = 1
   \<and> phase (run lenient_host main (failures 1 0 example_refused)) = Exited 1
   \<and> attempts (run lenient_host main (failures 1 0 example_refused)) = 1"
  by (simp add: failure_def attempts_def lenient_host_def run_defs)

text \<open>
  Whether the process survives a failed reconnect attempt is up to the host: the promise of a
  call of \<^verbatim>\<open>connectToFederation\<close> made by the timer has no handler. On a host that only warns,
  the loop goes on for ever; on one for which an unhandled rejection is fatal (the default of
  Node 20), the first failed reconnect attempt ends the process.
\<close>

lemma error_event_lenient:
  assumes "\<not> unhandledRejectionFatal h" "phase t = Running"
    "connectPromise (sockets t ! 0) \<noteq> Pending" "k < length (sockets t)"
  shows "phase (step h t (WsError k err)) = Running
         \<and> connectPromise (sockets (step h t (WsError k err)) ! 0) \<noteq> Pending
         \<and> length (sockets (step h t (WsError k err))) = length (sockets t)"
  using assms
  by (cases "k = 0")
     (simp_all add: step_def alive_def reject_connect_def set_promise_def Let_def)

lemma close_event_promise:
  assumes "phase t = Running" "connectPromise (sockets t ! 0) \<noteq> Pending" "k < length (sockets t)"
  shows "connectPromise (sockets (step h t (WsClose k)) ! 0) \<noteq> Pending"
  using assms
  by (cases "k = 0") (simp_all add: step_def alive_def on_close_def set_readyState_def)

lemma timer_event_promise:
  assumes "phase t = Running" "connectPromise (sockets t ! 0) \<noteq> Pending" "0 < length (sockets t)"
  shows "connectPromise (sockets (step h t (TimerFired i)) ! 0) \<noteq> Pending"
  using assms
  by (simp add: step_def alive_def timer_fired_def connectToFederation_def nth_append)

lemma one_round_survives:
  assumes "\<not> unhandledRejectionFatal h" "phase s = Running"
    "connectPromise (sockets s ! 0) \<noteq> Pending" "attempts s = Suc k"
  shows "alive (run h s (failure k err))"
    and "connectPromise (sockets (run h s (failure k err @ [TimerFired 0])) ! 0) \<noteq> Pending"
proof -
  let ?s1 = "step h s (WsError k err)"
  let ?s2 = "step h ?s1 (WsClose k)"
  let ?s3 = "step h ?s2 (TimerFired 0)"
  have k: "k < length (sockets s)"
    using assms(4) by (simp add: attempts_def)
  from error_event_lenient [OF assms(1-3) k, of err]
  have p1: "phase ?s1 = Running" and q1: "connectPromise (sockets ?s1 ! 0) \<noteq> Pending"
    and l1: "length (sockets ?s1) = length (sockets s)"
    by simp_all
  from k l1 have k1: "k < length (sockets ?s1)" by simp
  have p2: "phase ?s2 = Running"
    by (rule close_event(1) [OF p1 k1])
  have q2: "connectPromise (sockets ?s2 ! 0) \<noteq> Pending"
    by (rule close_event_promise [OF p1 q1 k1])
  have l2: "0 < length (sockets ?s2)"
    using close_event(3) [OF p1 k1, of h] k1 by (cases "sockets ?s1") simp_all
  have q3: "connectPromise (sockets ?s3 ! 0) \<noteq> Pending"
    by (rule timer_event_promise [OF p2 q2 l2])
  have r2: "run h s (failure k err) = ?s2"
    by (simp add: run_def failure_def)
  have r3: "run h s (failure k err @ [TimerFired 0]) = ?s3"
    by (simp add: run_def failure_def)
  show "alive (run h s (failure k err))"
    unfolding r2 using p2 by (simp add: alive_def)
  show "connectPromise (sockets (run h s (failure k err @ [TimerFired 0])) ! 0) \<noteq> Pending"
    unfolding r3 by (rule q3)
qed

lemma reconnect_loop_survives:
  "\<not> unhandledRejectionFatal h \<Longrightarrow> phase s = Running \<Longrightarrow>
   connectPromise (sockets s ! 0) \<noteq> Pending \<Longrightarrow> timers s = [] \<Longrightarrow> attempts s = Suc k \<Longrightarrow>
   alive (run h s (failures n k err))"
proof (induction n arbitrary: s k)
  case 0
  then show ?case by (simp add: run_def alive_def)
next
  case (Suc n)
  let ?s3 = "run h s (failure k err @ [TimerFired 0])"
  have "failures (Suc n) k err = (failure k err @ [TimerFired 0]) @ failures n (Suc k) err"
    by simp
  then have split: "run h s (failures (Suc n) k err) = run h ?s3 (failures n (Suc k) err)"
    by (simp only: run_append)
  note sv = one_round_survives [OF Suc.prems(1,2,3,5), of err]
  note r = one_round [OF Suc.prems(2,4,5) sv(1)]
  from Suc.IH [OF Suc.prems(1) r(1) sv(2) r(2) r(3)] show ?case
    unfolding split .
qed

lemma failed_reconnect_ends_process_when_rejections_are_fatal:
  "phase (run example_host main (WsOpen 0 # failures 2 0 example_refused)) = Exited 1
   \<and> attempts (run example_host main (WsOpen 0 # failures 2 0 example_refused)) = 2"
  by (simp add: failures_2 failure_def attempts_def run_defs)

end
